theory Spec2Isabelle
  imports Main "HOL-Library.Word" "HOL-Library.Signed_Division"
begin

unbundle bit_operations_syntax

section \<open>The BGP session engine of internal/bgp/bgp.go\<close>

text \<open>
  The development embeds the session engine of \<^verbatim>\<open>src/internal/bgp/bgp.go\<close>: the
  control surface (\<^verbatim>\<open>New\<close>, \<^verbatim>\<open>Set\<close>, \<^verbatim>\<open>Close\<close>), \<^verbatim>\<open>abort\<close>, the writer
  \<^verbatim>\<open>sendUpdates\<close>, the connector \<^verbatim>\<open>connect\<close>, the keepalive ticker and the exit path
  of the reader \<^verbatim>\<open>consumeBGP\<close>.

  Every method of the Go code takes the session mutex, so each one is an atomic
  transition of the session record. The only place where the writer gives the mutex up
  is \<^verbatim>\<open>s.cond.Wait()\<close>; there the transitions of the other goroutines interleave.

  Conventions:
  \<^item> Go pointers (\<^verbatim>\<open>*Advertisement\<close>, \<^verbatim>\<open>*net.IPNet\<close>) are taken to be non-nil and are
    modelled by the value they point to.
  \<^item> A Go slice that can be \<^verbatim>\<open>nil\<close> and whose nil-ness the code can observe
    (\<^verbatim>\<open>Communities\<close>, through \<^verbatim>\<open>reflect.DeepEqual\<close>) is a \<open>list option\<close>, \<open>None\<close> being
    the nil slice. A \<^verbatim>\<open>net.IP\<close> is only ever inspected through its length and bytes, so
    it is a byte list.
  \<^item> A \<^verbatim>\<open>map[string]*Advertisement\<close> is a partial function; the map that can be
    \<^verbatim>\<open>nil\<close> (\<^verbatim>\<open>s.new\<close>) is an \<open>option\<close> of one. The order in which \<^verbatim>\<open>range\<close> visits a map
    is not fixed by Go, so every loop over a map takes the list of keys in the order of
    the visit as an argument.
  \<^item> \<^verbatim>\<open>time.Duration\<close> is a signed count of nanoseconds; the code only compares
    durations and divides one by 3, so \<open>int\<close> with truncating division models it.
  \<^item> The metrics sink (\<^verbatim>\<open>stats\<close>) and the log (\<^verbatim>\<open>glog\<close>) are write-only and left out.
\<close>

subsection \<open>Addresses and prefixes (Go's package net)\<close>

type_synonym byte = "8 word"
type_synonym ip = "byte list"

record IPNet =
  IP :: ip
  Mask :: "byte list"

text \<open>\<^verbatim>\<open>v4InV6Prefix\<close>: ten zero bytes, then \<^verbatim>\<open>0xff 0xff\<close>.\<close>

definition v4InV6Prefix :: "byte list" where
  "v4InV6Prefix = [0, 0, 0, 0, 0, 0, 0, 0, 0, 0, 0xff, 0xff]"

text \<open>\<^verbatim>\<open>IP.To4\<close>: the 4-byte form of an IPv4 address, \<open>None\<close> for Go's \<^verbatim>\<open>nil\<close>.\<close>

definition To4 :: "ip \<Rightarrow> ip option" where
  "To4 a =
     (if length a = 4 then Some a
      else if length a = 16 \<and> take 12 a = v4InV6Prefix then Some (drop 12 a)
      else None)"

text \<open>\<^verbatim>\<open>IP.Equal\<close>: an IPv4 address and its IPv6-mapped form are equal.\<close>

definition IP_Equal :: "ip \<Rightarrow> ip \<Rightarrow> bool" where
  "IP_Equal a x =
     (if length a = length x then a = x
      else if length a = 4 \<and> length x = 16 then take 12 x = v4InV6Prefix \<and> a = drop 12 x
      else if length a = 16 \<and> length x = 4 then take 12 a = v4InV6Prefix \<and> drop 12 a = x
      else False)"

text \<open>Decimal and hexadecimal printing (\<^verbatim>\<open>uitoa\<close>, \<^verbatim>\<open>hexString\<close>).\<close>

definition digit :: "nat \<Rightarrow> char" where
  "digit n = ''0123456789abcdef'' ! (n mod 16)"

fun uitoa :: "nat \<Rightarrow> string" where
  "uitoa n = (if n < 10 then [digit n] else uitoa (n div 10) @ [digit (n mod 10)])"

declare uitoa.simps [simp del]

definition hexString :: "byte list \<Rightarrow> string" where
  "hexString bs = concat (map (\<lambda>b. [digit (unat b div 16), digit (unat b mod 16)]) bs)"

text \<open>\<^verbatim>\<open>IP.String\<close> on a 4-byte address: dotted decimal.\<close>

fun dotted :: "byte list \<Rightarrow> string" where
  "dotted [] = []"
| "dotted [b] = uitoa (unat b)"
| "dotted (b # bs) = uitoa (unat b) @ ''.'' @ dotted bs"

text \<open>
  \<^verbatim>\<open>simpleMaskLength\<close>: the number of leading one bits of a mask made of ones followed
  by zeros, \<open>None\<close> (Go's \<^verbatim>\<open>-1\<close>) for any other mask. \<open>leading_ones\<close> is the inner loop
  \<^verbatim>\<open>for v&0x80 != 0 { n++; v <<= 1 }\<close>, which runs at most eight times on a byte.
\<close>

fun leading_ones :: "nat \<Rightarrow> byte \<Rightarrow> nat \<times> byte" where
  "leading_ones 0 v = (0, v)"
| "leading_ones (Suc k) v =
     (if v AND 0x80 \<noteq> 0
      then (case leading_ones k (push_bit 1 v) of (n, v') \<Rightarrow> (Suc n, v'))
      else (0, v))"

fun simpleMaskLength :: "byte list \<Rightarrow> nat option" where
  "simpleMaskLength [] = Some 0"
| "simpleMaskLength (v # vs) =
     (if v = 0xff then map_option (\<lambda>n. n + 8) (simpleMaskLength vs)
      else (case leading_ones 8 v of (n, v') \<Rightarrow>
              if v' \<noteq> 0 then None
              else if list_all (\<lambda>b. b = 0) vs then Some n else None))"

text \<open>
  \<^verbatim>\<open>networkNumberAndMask\<close> and \<^verbatim>\<open>IPNet.String\<close>: the CIDR form of a prefix, the key of
  the desired and advertised maps.
\<close>

definition networkNumberAndMask :: "IPNet \<Rightarrow> (ip \<times> byte list) option" where
  "networkNumberAndMask n =
     (case (case To4 (IP n) of Some a \<Rightarrow> Some a
            | None \<Rightarrow> if length (IP n) = 16 then Some (IP n) else None) of
        None \<Rightarrow> None
      | Some a \<Rightarrow>
          if length (Mask n) = 4 then (if length a = 4 then Some (a, Mask n) else None)
          else if length (Mask n) = 16
               then Some (a, if length a = 4 then drop 12 (Mask n) else Mask n)
          else None)"

text \<open>
  Only prefixes whose address passed \<^verbatim>\<open>To4\<close> reach \<^verbatim>\<open>String\<close> (see \<open>Set\<close>), so the
  network number is always 4 bytes long here and \<^verbatim>\<open>IP.String\<close> prints it dotted; the
  16-byte branch prints the bytes in hexadecimal, which keeps the function injective
  there without following Go's IPv6 text form.
\<close>

definition IP_String :: "ip \<Rightarrow> string" where
  "IP_String a = (if length a = 4 then dotted a else hexString a)"

definition IPNet_String :: "IPNet \<Rightarrow> string" where
  "IPNet_String n =
     (case networkNumberAndMask n of
        None \<Rightarrow> ''<nil>''
      | Some (nn, m) \<Rightarrow>
          (case simpleMaskLength m of
             None \<Rightarrow> IP_String nn @ ''/'' @ hexString m
           | Some l \<Rightarrow> IP_String nn @ ''/'' @ uitoa l))"

subsection \<open>Advertisements and the session\<close>

record Advertisement =
  Prefix :: IPNet
  NextHop :: ip
  LocalPref :: "32 word"
  Communities :: "32 word list option"

text \<open>\<^verbatim>\<open>len\<close> of a slice: a nil slice has length 0.\<close>

definition len :: "'a list option \<Rightarrow> nat" where
  "len xs = (case xs of None \<Rightarrow> 0 | Some l \<Rightarrow> length l)"

text \<open>
  \<^verbatim>\<open>reflect.DeepEqual\<close> on two \<^verbatim>\<open>[]uint32\<close>: both nil, or both non-nil with the same
  length and the same elements. A nil slice and an empty non-nil slice are not deeply
  equal.
\<close>

definition DeepEqual :: "32 word list option \<Rightarrow> 32 word list option \<Rightarrow> bool" where
  "DeepEqual xs ys =
     (case (xs, ys) of
        (None, None) \<Rightarrow> True
      | (Some a, Some b) \<Rightarrow> length a = length b \<and> list_all2 (=) a b
      | _ \<Rightarrow> False)"

type_synonym advmap = "string \<rightharpoonup> Advertisement"

record Session =
  asn :: "32 word"
  routerID :: ip
  addr :: string
  peerASN :: "32 word"
  holdTime :: int
  newHoldTime :: bool
  closed :: bool
  conn :: "nat option"
  actualHoldTime :: int
  advertised :: advmap
  new :: "advmap option"

text \<open>
  \<open>conn\<close> holds the identity of the live connection (\<open>None\<close> is Go's nil interface).
  \<open>newHoldTime\<close> is the one-slot channel: \<open>True\<close> when the slot is full. The field
  \<^verbatim>\<open>pending\<close> of the Go struct is never read or written and is left out.
\<close>

datatype error =
    errClosed
  | ErrRouterID ip
  | ErrPrefix IPNet
  | ErrNextHop ip
  | ErrCommunities nat
  | ErrDial
  | ErrSendOpen
  | ErrReadOpen
  | ErrPeerASN "32 word" "32 word"
  | ErrAccept
  | ErrUpdate string
  | ErrWithdraw "IPNet list"
  | ErrKeepalive

subsection \<open>Set\<close>

text \<open>
  The loop of \<^verbatim>\<open>Set\<close> over its arguments: each advertisement is validated and then
  stored under its prefix string; the first invalid one ends the call with an error.
\<close>

fun Set_loop :: "Advertisement list \<Rightarrow> advmap \<Rightarrow> error + advmap" where
  "Set_loop [] newAdvs = Inr newAdvs"
| "Set_loop (adv # advs) newAdvs =
     (if To4 (IP (Prefix adv)) = None then Inl (ErrPrefix (Prefix adv))
      else if To4 (NextHop adv) = None then Inl (ErrNextHop (NextHop adv))
      else if len (Communities adv) > 63 then Inl (ErrCommunities (len (Communities adv)))
      else Set_loop advs (newAdvs(IPNet_String (Prefix adv) \<mapsto> adv)))"

definition Set :: "Advertisement list \<Rightarrow> Session \<Rightarrow> error option \<times> Session" where
  "Set advs s =
     (case Set_loop advs Map.empty of
        Inl e \<Rightarrow> (Some e, s)
      | Inr newAdvs \<Rightarrow> (None, s\<lparr>new := Some newAdvs\<rparr>))"

subsection \<open>The connection and the world outside the session\<close>

datatype msg =
    OPEN "32 word" ip int
  | KEEPALIVE
  | UPDATE "32 word" Advertisement
  | WITHDRAW "IPNet list"

text \<open>
  The world records what the session did to its connections: \<open>wire\<close> is the list of
  messages written, each with the identity of the connection it was written to;
  \<open>closedc\<close> lists the connections on which \<^verbatim>\<open>Close\<close> was called. Whether a write
  succeeds is decided outside the program: \<open>sends\<close> holds the outcomes of the coming
  writes (\<open>True\<close> for success), and once it is used up every write succeeds.
\<close>

record world =
  wire :: "(nat \<times> msg) list"
  closedc :: "nat list"
  sends :: "bool list"

text \<open>
  A write of one message to a connection: it succeeds and the message is on the wire,
  or it fails and nothing is. A call through a nil \<^verbatim>\<open>net.Conn\<close> is a nil dereference
  (\<open>NilConn\<close>), which is a panic and not an error value.
\<close>

datatype wres = Sent | Failed | NilConn

definition conn_write :: "nat option \<Rightarrow> msg \<Rightarrow> world \<Rightarrow> wres \<times> world" where
  "conn_write c m w =
     (case c of
        None \<Rightarrow> (NilConn, w)
      | Some i \<Rightarrow>
          (case sends w of
             [] \<Rightarrow> (Sent, w\<lparr>wire := wire w @ [(i, m)]\<rparr>)
           | ok # rest \<Rightarrow>
               if ok then (Sent, w\<lparr>wire := wire w @ [(i, m)], sends := rest\<rparr>)
               else (Failed, w\<lparr>sends := rest\<rparr>)))"

text \<open>
  Modelled from the spec: the encoders \<^verbatim>\<open>sendOpen\<close>, \<^verbatim>\<open>sendKeepalive\<close>, \<^verbatim>\<open>sendUpdate\<close>
  and \<^verbatim>\<open>sendWithdraw\<close> are not among the sources. Each encodes one message (OPEN with
  the local ASN, the router ID and the hold time; KEEPALIVE; UPDATE announcing one
  prefix with its attributes, the AS path made from the ASN it is given; WITHDRAW
  carrying withdrawn prefixes only), writes it to the connection and returns an error
  when the write fails. The message is kept here as the arguments of the call.
\<close>

definition sendOpen :: "nat option \<Rightarrow> 32 word \<Rightarrow> ip \<Rightarrow> int \<Rightarrow> world \<Rightarrow> wres \<times> world" where
  "sendOpen c a rid hold w = conn_write c (OPEN a rid hold) w"

definition sendKeepalive :: "nat option \<Rightarrow> world \<Rightarrow> wres \<times> world" where
  "sendKeepalive c w = conn_write c KEEPALIVE w"

definition sendUpdate :: "nat option \<Rightarrow> 32 word \<Rightarrow> Advertisement \<Rightarrow> world \<Rightarrow> wres \<times> world" where
  "sendUpdate c a adv w = conn_write c (UPDATE a adv) w"

definition sendWithdraw :: "nat option \<Rightarrow> IPNet list \<Rightarrow> world \<Rightarrow> wres \<times> world" where
  "sendWithdraw c wdr w = conn_write c (WITHDRAW wdr) w"

text \<open>\<^verbatim>\<open>conn.Close()\<close>.\<close>

definition conn_Close :: "nat \<Rightarrow> world \<Rightarrow> world" where
  "conn_Close c w = w\<lparr>closedc := closedc w @ [c]\<rparr>"

subsection \<open>abort and Close\<close>

text \<open>
  \<^verbatim>\<open>abort\<close> closes and drops the connection if there is one, then folds a pending
  desired set into \<open>advertised\<close>. \<^verbatim>\<open>s.cond.Broadcast()\<close> changes no field: who is woken
  is the business of the wait loop in \<open>sendUpdates_loop\<close>.
\<close>

definition abort :: "world \<Rightarrow> Session \<Rightarrow> world \<times> Session" where
  "abort w s =
     (case (case conn s of
              Some c \<Rightarrow> (conn_Close c w, s\<lparr>conn := None\<rparr>)
            | None \<Rightarrow> (w, s)) of
        (w1, s1) \<Rightarrow>
          (case new s1 of
             Some n \<Rightarrow> (w1, s1\<lparr>advertised := n, new := None\<rparr>)
           | None \<Rightarrow> (w1, s1)))"

definition Close :: "world \<Rightarrow> Session \<Rightarrow> world \<times> Session" where
  "Close w s = abort w (s\<lparr>closed := True\<rparr>)"

subsection \<open>New\<close>

definition New :: "string \<Rightarrow> 32 word \<Rightarrow> ip \<Rightarrow> 32 word \<Rightarrow> int \<Rightarrow> error + Session" where
  "New addr' asn' routerID' peerASN' holdTime' =
     (case To4 routerID' of
        None \<Rightarrow> Inl (ErrRouterID routerID')
      | Some r \<Rightarrow>
          Inr \<lparr>asn = asn', routerID = r, addr = addr', peerASN = peerASN',
               holdTime = holdTime', newHoldTime = False, closed = False, conn = None,
               actualHoldTime = 0, advertised = Map.empty, new = None\<rparr>)"

subsection \<open>The writer: sendUpdates\<close>

text \<open>What \<^verbatim>\<open>sendUpdates\<close> does in the end: it returns, it panics, or it is still waiting.\<close>

datatype ret = Return "error option" | Panic | Blocked

text \<open>Indexing \<^verbatim>\<open>s.new\<close>: a nil map has no entries.\<close>

definition lookup_new :: "Session \<Rightarrow> string \<Rightarrow> Advertisement option" where
  "lookup_new s c = (case new s of None \<Rightarrow> None | Some n \<Rightarrow> n c)"

text \<open>The ASN handed to the encoder (lines 70 to 73).\<close>

definition wire_asn :: "Session \<Rightarrow> 32 word" where
  "wire_asn s = (if peerASN s = asn s then 0 else asn s)"

text \<open>
  The first loop (lines 79 to 85): one UPDATE for every entry of \<open>advertised\<close>, in the
  order \<open>ks\<close> of the visit. The result is \<open>None\<close> when the loop runs to its end.
\<close>

fun first_updates :: "32 word \<Rightarrow> string list \<Rightarrow> world \<Rightarrow> Session \<Rightarrow> ret option \<times> world \<times> Session" where
  "first_updates a [] w s = (None, w, s)"
| "first_updates a (c # cs) w s =
     (case advertised s c of
        None \<Rightarrow> first_updates a cs w s
      | Some adv \<Rightarrow>
          (case sendUpdate (conn s) a adv w of
             (Sent, w') \<Rightarrow> first_updates a cs w' s
           | (Failed, w') \<Rightarrow>
               (case abort w' s of (w'', s') \<Rightarrow> (Some (Return (Some (ErrUpdate c))), w'', s'))
           | (NilConn, w') \<Rightarrow> (Some Panic, w', s)))"

text \<open>The test of line 106: the peer already has this advertisement.\<close>

definition already_sent :: "Session \<Rightarrow> string \<Rightarrow> Advertisement \<Rightarrow> bool" where
  "already_sent s c adv =
     (case advertised s c of
        None \<Rightarrow> False
      | Some adv2 \<Rightarrow>
          IP_Equal (NextHop adv2) (NextHop adv) \<and>
          DeepEqual (Communities adv2) (Communities adv))"

text \<open>The loop over \<^verbatim>\<open>s.new\<close> (lines 105 to 117), in the order \<open>ks\<close> of the visit.\<close>

fun diff_updates :: "32 word \<Rightarrow> string list \<Rightarrow> world \<Rightarrow> Session \<Rightarrow> ret option \<times> world \<times> Session" where
  "diff_updates a [] w s = (None, w, s)"
| "diff_updates a (c # cs) w s =
     (case lookup_new s c of
        None \<Rightarrow> diff_updates a cs w s
      | Some adv \<Rightarrow>
          if already_sent s c adv then diff_updates a cs w s
          else
            (case sendUpdate (conn s) a adv w of
               (Sent, w') \<Rightarrow> diff_updates a cs w' s
             | (Failed, w') \<Rightarrow>
                 (case abort w' s of (w'', s') \<Rightarrow> (Some (Return (Some (ErrUpdate c))), w'', s'))
             | (NilConn, w') \<Rightarrow> (Some Panic, w', s)))"

text \<open>The loop over \<^verbatim>\<open>s.advertised\<close> that collects the withdrawals (lines 119 to 124).\<close>

fun wdr_loop :: "string list \<Rightarrow> Session \<Rightarrow> IPNet list \<Rightarrow> IPNet list" where
  "wdr_loop [] s wdr = wdr"
| "wdr_loop (c # cs) s wdr =
     (case advertised s c of
        None \<Rightarrow> wdr_loop cs s wdr
      | Some adv \<Rightarrow>
          if lookup_new s c = None then wdr_loop cs s (wdr @ [Prefix adv])
          else wdr_loop cs s wdr)"

text \<open>\<^verbatim>\<open>s.advertised, s.new = s.new, nil\<close>: a nil map read later has no entries.\<close>

definition commit :: "Session \<Rightarrow> Session" where
  "commit s = s\<lparr>advertised := (case new s of None \<Rightarrow> Map.empty | Some n \<Rightarrow> n), new := None\<rparr>"

text \<open>
  One diff pass (lines 105 to 133). \<open>ks_new\<close> and \<open>ks_adv\<close> are the orders in which the
  two \<^verbatim>\<open>range\<close> loops visit \<^verbatim>\<open>s.new\<close> and \<^verbatim>\<open>s.advertised\<close>. The result is \<open>None\<close> when the
  pass runs to its end and the outer loop goes on.
\<close>

definition sendUpdates_diff ::
  "32 word \<Rightarrow> string list \<Rightarrow> string list \<Rightarrow> world \<Rightarrow> Session \<Rightarrow> ret option \<times> world \<times> Session" where
  "sendUpdates_diff a ks_new ks_adv w s =
     (case diff_updates a ks_new w s of
        (Some r, w1, s1) \<Rightarrow> (Some r, w1, s1)
      | (None, w1, s1) \<Rightarrow>
          (let wdr = wdr_loop ks_adv s1 [] in
           if length wdr > 0 then
             (case sendWithdraw (conn s1) wdr w1 of
                (Sent, w2) \<Rightarrow> (None, w2, commit s1)
              | (Failed, w2) \<Rightarrow>
                  (case abort w2 s1 of
                     (w3, s3) \<Rightarrow> (Some (Return (Some (ErrWithdraw wdr))), w3, s3))
              | (NilConn, w2) \<Rightarrow> (Some Panic, w2, s1))
           else (None, w1, commit s1)))"

subsection \<open>The keepalive method and the reader\<close>

text \<open>The method \<^verbatim>\<open>(*Session).sendKeepalive\<close> (lines 219 to 234).\<close>

definition Session_sendKeepalive :: "world \<Rightarrow> Session \<Rightarrow> error option \<times> world \<times> Session" where
  "Session_sendKeepalive w s =
     (if closed s then (Some errClosed, w, s)
      else if conn s = None then (None, w, s)
      else
        (case sendKeepalive (conn s) w of
           (Sent, w') \<Rightarrow> (None, w', s)
         | (_, w') \<Rightarrow> (case abort w' s of (w'', s') \<Rightarrow> (Some ErrKeepalive, w'', s'))))"

text \<open>
  The read loop of \<^verbatim>\<open>consumeBGP\<close> on the bytes the peer sends before the stream ends.
  A header is 19 bytes: 16 marker bytes, a big-endian 16-bit length and a type. The body
  is skipped through \<^verbatim>\<open>io.LimitReader(conn, int64(hdr.Len)-19)\<close>, which reads nothing
  when the bound is not positive and stops without error where the stream ends.
\<close>

datatype reader_exit = ReadError | BadMarker

definition hdr_Len :: "byte list \<Rightarrow> nat" where
  "hdr_Len bs = unat (bs ! 16) * 256 + unat (bs ! 17)"

function consumeBGP_loop :: "byte list \<Rightarrow> reader_exit" where
  "consumeBGP_loop bs =
     (if length bs < 19 then ReadError
      else if take 16 bs \<noteq> replicate 16 0xff then BadMarker
      else consumeBGP_loop (drop (19 + nat (int (hdr_Len bs) - 19)) bs))"
  by pat_completeness auto
termination
  by (relation "measure length") auto

declare consumeBGP_loop.simps [simp del]

text \<open>
  The deferred function of \<^verbatim>\<open>consumeBGP\<close> (lines 260 to 268), run under the session
  lock when the loop ends. \<open>c\<close> is the connection the reader was started with;
  \<^verbatim>\<open>s.conn == conn\<close> compares two interface values holding pointers, that is, identities.
\<close>

definition consumeBGP_deferred :: "nat \<Rightarrow> world \<Rightarrow> Session \<Rightarrow> world \<times> Session" where
  "consumeBGP_deferred c w s =
     (if conn s = Some c then abort w s else (conn_Close c w, s))"

definition consumeBGP :: "nat \<Rightarrow> byte list \<Rightarrow> world \<Rightarrow> Session \<Rightarrow> reader_exit \<times> world \<times> Session" where
  "consumeBGP c bs w s =
     (case consumeBGP_loop bs of
        r \<Rightarrow> (case consumeBGP_deferred c w s of (w', s') \<Rightarrow> (r, w', s')))"

subsection \<open>What the other goroutines do while the writer waits\<close>

datatype event =
    EvSet "Advertisement list"
  | EvClose
  | EvReaderExit nat
  | EvTick

fun apply_event :: "event \<Rightarrow> world \<times> Session \<Rightarrow> world \<times> Session" where
  "apply_event (EvSet advs) (w, s) = (w, snd (Set advs s))"
| "apply_event EvClose (w, s) = Close w s"
| "apply_event (EvReaderExit c) (w, s) = consumeBGP_deferred c w s"
| "apply_event EvTick (w, s) = snd (Session_sendKeepalive w s)"

definition apply_events :: "event list \<Rightarrow> world \<times> Session \<Rightarrow> world \<times> Session" where
  "apply_events evs ws = fold apply_event evs ws"

text \<open>
  The outer loop of \<^verbatim>\<open>sendUpdates\<close> (lines 88 to 134). Each turn of the recursion is
  either one call of \<^verbatim>\<open>s.cond.Wait()\<close>, during which the events of the turn happen, or
  one pass through the rest of the loop body, whose two \<^verbatim>\<open>range\<close> loops visit the maps
  in the orders the turn gives. When the turns are used up the writer has not returned:
  the result is \<open>Blocked\<close>.
\<close>

record turn =
  during_wait :: "event list"
  order_new :: "string list"
  order_adv :: "string list"

fun sendUpdates_loop :: "32 word \<Rightarrow> turn list \<Rightarrow> world \<Rightarrow> Session \<Rightarrow> ret \<times> world \<times> Session" where
  "sendUpdates_loop a [] w s = (Blocked, w, s)"
| "sendUpdates_loop a (t # ts) w s =
     (if new s = None \<and> conn s \<noteq> None then
        (case apply_events (during_wait t) (w, s) of (w', s') \<Rightarrow> sendUpdates_loop a ts w' s')
      else if closed s then (Return (Some errClosed), w, s)
      else if conn s = None then (Return None, w, s)
      else if new s = None then sendUpdates_loop a ts w s
      else
        (case sendUpdates_diff a (order_new t) (order_adv t) w s of
           (Some r, w', s') \<Rightarrow> (r, w', s')
         | (None, w', s') \<Rightarrow> sendUpdates_loop a ts w' s'))"

text \<open>
  \<^verbatim>\<open>sendUpdates\<close> (lines 66 to 135): the ASN for the wire, the promotion of a pending
  set, the first pass over \<open>advertised\<close> in the order \<open>ks\<close>, then the loop.
\<close>

definition promote :: "Session \<Rightarrow> Session" where
  "promote s = (case new s of Some n \<Rightarrow> s\<lparr>advertised := n, new := None\<rparr> | None \<Rightarrow> s)"

definition sendUpdates :: "string list \<Rightarrow> turn list \<Rightarrow> world \<Rightarrow> Session \<Rightarrow> ret \<times> world \<times> Session" where
  "sendUpdates ks ts w s =
     (let a = wire_asn s in
      case first_updates a ks w (promote s) of
        (Some r, w', s') \<Rightarrow> (r, w', s')
      | (None, w', s') \<Rightarrow> sendUpdates_loop a ts w' s')"

subsection \<open>The connector\<close>

text \<open>
  \<^verbatim>\<open>connect\<close> (lines 137 to 182). \<open>dial\<close> is what \<^verbatim>\<open>net.Dial\<close> returns (a fresh
  connection, or \<open>None\<close> for an error) and \<open>reply\<close> what \<^verbatim>\<open>readOpen\<close> returns (the peer's
  ASN and the hold time it asks for, or \<open>None\<close> for an error). The reader started at line
  162 acts on the session only through \<open>consumeBGP_deferred\<close>, once \<^verbatim>\<open>connect\<close> has given
  the lock back.
\<close>

definition connect ::
  "nat option \<Rightarrow> (32 word \<times> int) option \<Rightarrow> world \<Rightarrow> Session \<Rightarrow> error option \<times> world \<times> Session" where
  "connect dial reply w s =
     (case dial of
        None \<Rightarrow> (Some ErrDial, w, s)
      | Some c \<Rightarrow>
          (case sendOpen (Some c) (asn s) (routerID s) (holdTime s) w of
             (Sent, w1) \<Rightarrow>
               (case reply of
                  None \<Rightarrow> (Some ErrReadOpen, conn_Close c w1, s)
                | Some (asn', requestedHold) \<Rightarrow>
                    if asn' \<noteq> peerASN s
                    then (Some (ErrPeerASN asn' (peerASN s)), conn_Close c w1, s)
                    else
                      (case sendKeepalive (Some c) w1 of
                         (Sent, w2) \<Rightarrow>
                           (let s1 = s\<lparr>actualHoldTime := holdTime s\<rparr>;
                                s2 = (if requestedHold < actualHoldTime s1
                                      then s1\<lparr>actualHoldTime := requestedHold\<rparr> else s1);
                                s3 = s2\<lparr>newHoldTime := True\<rparr>
                            in (None, w2, s3\<lparr>conn := Some c\<rparr>))
                       | (_, w2) \<Rightarrow> (Some ErrAccept, conn_Close c w2, s)))
           | (_, w1) \<Rightarrow> (Some ErrSendOpen, conn_Close c w1, s)))"

subsection \<open>The keepalive ticker\<close>

text \<open>
  The goroutine \<^verbatim>\<open>sendKeepalives\<close> (lines 184 to 217) keeps a ticker \<^verbatim>\<open>t\<close> (\<open>NoTicker\<close>
  is \<^verbatim>\<open>nil\<close>, and then the channel \<^verbatim>\<open>ch\<close> is nil too and never delivers). A ticker is
  known by its period. \<^verbatim>\<open>time.NewTicker\<close> panics when the period is not positive.
\<close>

datatype ticker = NoTicker | Ticker int

datatype tstate = Running ticker | Stopped | Panicked

definition NewTicker :: "int \<Rightarrow> ticker option" where
  "NewTicker d = (if d \<le> 0 then None else Some (Ticker d))"

text \<open>The branch \<^verbatim>\<open>case <-s.newHoldTime\<close>: the slot is emptied and the ticker replaced.\<close>

definition on_newHoldTime :: "ticker \<Rightarrow> Session \<Rightarrow> tstate \<times> Session" where
  "on_newHoldTime t s =
     (let s' = s\<lparr>newHoldTime := False\<rparr>;
          ht = actualHoldTime s
      in if ht \<noteq> 0
         then (case NewTicker (ht sdiv 3) of
                 None \<Rightarrow> (Panicked, s')
               | Some t' \<Rightarrow> (Running t', s'))
         else (Running NoTicker, s'))"

text \<open>The branch \<^verbatim>\<open>case <-ch\<close>: one call of the keepalive method.\<close>

definition on_tick :: "ticker \<Rightarrow> world \<Rightarrow> Session \<Rightarrow> tstate \<times> world \<times> Session" where
  "on_tick t w s =
     (case Session_sendKeepalive w s of
        (Some errClosed, w', s') \<Rightarrow> (Stopped, w', s')
      | (_, w', s') \<Rightarrow> (Running t, w', s'))"

text \<open>
  One turn of the \<^verbatim>\<open>select\<close>: a branch is taken only when its channel can deliver, that
  is, when the hold-time slot is full, or when there is a ticker to fire.
\<close>

datatype tevent = RecvHoldTime | TickFires

fun sendKeepalives_step :: "tevent \<Rightarrow> tstate \<times> world \<times> Session \<Rightarrow> tstate \<times> world \<times> Session" where
  "sendKeepalives_step RecvHoldTime (Running t, w, s) =
     (if newHoldTime s then (case on_newHoldTime t s of (ts, s') \<Rightarrow> (ts, w, s'))
      else (Running t, w, s))"
| "sendKeepalives_step TickFires (Running (Ticker d), w, s) = on_tick (Ticker d) w s"
| "sendKeepalives_step e st = st"

definition sendKeepalives :: "tevent list \<Rightarrow> world \<Rightarrow> Session \<Rightarrow> tstate \<times> world \<times> Session" where
  "sendKeepalives evs w s = fold sendKeepalives_step evs (Running NoTicker, w, s)"

section \<open>Notions used to state the properties\<close>

text \<open>
  An address is IPv4 when it is 4 bytes long, or 16 bytes long with the IPv4-in-IPv6
  prefix. \<open>invalid_adv\<close> is what \<^verbatim>\<open>Set\<close> refuses. \<open>desired_map\<close> is the map from
  prefix string to advertisement in which a later advertisement replaces an earlier one
  with the same prefix string.
\<close>

definition is_IPv4 :: "ip \<Rightarrow> bool" where
  "is_IPv4 a = (length a = 4 \<or> (length a = 16 \<and> take 12 a = v4InV6Prefix))"

definition invalid_adv :: "Advertisement \<Rightarrow> bool" where
  "invalid_adv adv =
     (\<not> is_IPv4 (IP (Prefix adv)) \<or> \<not> is_IPv4 (NextHop adv) \<or> 63 < len (Communities adv))"

definition prefix_key :: "Advertisement \<Rightarrow> string" where
  "prefix_key adv = IPNet_String (Prefix adv)"

definition desired_map :: "Advertisement list \<Rightarrow> advmap" where
  "desired_map advs = map_of (rev (map (\<lambda>adv. (prefix_key adv, adv)) advs))"

text \<open>
  \<open>emitted w w'\<close> is what was written to the wire between the worlds \<open>w\<close> and \<open>w'\<close>.
  \<open>grows P w w'\<close> says that the wire of \<open>w'\<close> extends that of \<open>w\<close> by messages that all
  satisfy \<open>P\<close>; \<open>carries_asn a\<close> holds of every message that is not an UPDATE, and of
  an UPDATE encoded with the ASN \<open>a\<close>; \<open>announces_only A\<close> holds of every message that is
  not an UPDATE, and of an UPDATE for an advertisement in \<open>A\<close>.
\<close>

definition emitted :: "world \<Rightarrow> world \<Rightarrow> (nat \<times> msg) list" where
  "emitted w w' = drop (length (wire w)) (wire w')"

definition grows :: "(msg \<Rightarrow> bool) \<Rightarrow> world \<Rightarrow> world \<Rightarrow> bool" where
  "grows P w w' = (\<exists>ms. wire w' = wire w @ ms \<and> list_all (\<lambda>cm. P (snd cm)) ms)"

definition carries_asn :: "32 word \<Rightarrow> msg \<Rightarrow> bool" where
  "carries_asn a m = (case m of UPDATE a' adv \<Rightarrow> a' = a | _ \<Rightarrow> True)"

definition announces_only :: "Advertisement set \<Rightarrow> msg \<Rightarrow> bool" where
  "announces_only A m = (case m of UPDATE a' adv \<Rightarrow> adv \<in> A | _ \<Rightarrow> True)"

definition is_UPDATE :: "msg \<Rightarrow> bool" where
  "is_UPDATE m = (case m of UPDATE a adv \<Rightarrow> True | _ \<Rightarrow> False)"

definition is_WITHDRAW :: "msg \<Rightarrow> bool" where
  "is_WITHDRAW m = (case m of WITHDRAW wdr \<Rightarrow> True | _ \<Rightarrow> False)"

text \<open>
  \<open>peer_has s k advNew\<close>: the session has advertised, under the key \<open>k\<close>, an
  advertisement with a next hop \<^verbatim>\<open>Equal\<close> to that of \<open>advNew\<close> and with the same
  \<^verbatim>\<open>Communities\<close> slice (both nil, or both non-nil with the same elements).
  \<open>slice_elems\<close> is the sequence of the elements of a slice, which is empty for the nil
  slice and for the empty one.
\<close>

definition peer_has :: "Session \<Rightarrow> string \<Rightarrow> Advertisement \<Rightarrow> bool" where
  "peer_has s k advNew =
     (case advertised s k of
        None \<Rightarrow> False
      | Some adv2 \<Rightarrow>
          IP_Equal (NextHop adv2) (NextHop advNew) \<and> Communities adv2 = Communities advNew)"

definition slice_elems :: "'a list option \<Rightarrow> 'a list" where
  "slice_elems xs = (case xs of None \<Rightarrow> [] | Some l \<Rightarrow> l)"

text \<open>\<open>next_write_ok w\<close>: the next write to a connection succeeds.\<close>

definition next_write_ok :: "world \<Rightarrow> bool" where
  "next_write_ok w = (case sends w of [] \<Rightarrow> True | ok # rest \<Rightarrow> ok)"

section \<open>Example data\<close>

text \<open>
  The prefixes 10.1.0.0/24 and 10.2.0.0/24, and advertisements for them, all with the
  next hop 10.0.0.1 but \<open>ex_adv1b\<close>: \<open>ex_adv1\<close> with the community 100, \<open>ex_adv2\<close> with
  an empty non-nil community slice, \<open>ex_adv2_nil\<close> with a nil one, \<open>ex_adv64\<close> with 64
  communities.
\<close>

definition ex_net1 :: IPNet where
  "ex_net1 = \<lparr>IP = [10, 1, 0, 0], Mask = [255, 255, 255, 0]\<rparr>"

definition ex_net2 :: IPNet where
  "ex_net2 = \<lparr>IP = [10, 2, 0, 0], Mask = [255, 255, 255, 0]\<rparr>"

definition ex_adv1 :: Advertisement where
  "ex_adv1 = \<lparr>Prefix = ex_net1, NextHop = [10, 0, 0, 1], LocalPref = 100, Communities = Some [100]\<rparr>"

definition ex_adv1b :: Advertisement where
  "ex_adv1b = \<lparr>Prefix = ex_net1, NextHop = [10, 0, 0, 9], LocalPref = 100, Communities = Some [100]\<rparr>"

definition ex_adv2 :: Advertisement where
  "ex_adv2 = \<lparr>Prefix = ex_net2, NextHop = [10, 0, 0, 1], LocalPref = 100, Communities = Some []\<rparr>"

definition ex_adv2_nil :: Advertisement where
  "ex_adv2_nil = \<lparr>Prefix = ex_net2, NextHop = [10, 0, 0, 1], LocalPref = 100, Communities = None\<rparr>"

definition ex_adv64 :: Advertisement where
  "ex_adv64 = \<lparr>Prefix = ex_net2, NextHop = [10, 0, 0, 1], LocalPref = 100,
               Communities = Some (replicate 64 100)\<rparr>"

text \<open>
  The session of the end-to-end scenarios, as \<^verbatim>\<open>New\<close> builds it: local ASN 65001, router
  ID 10.0.0.1, peer ASN 65002, hold time 90 s (in nanoseconds); and a world in which
  nothing has been written and no write fails.
\<close>

definition ex_session :: Session where
  "ex_session =
     \<lparr>asn = 65001, routerID = [10, 0, 0, 1], addr = ''192.0.2.1:179'', peerASN = 65002,
      holdTime = 90000000000, newHoldTime = False, closed = False, conn = None,
      actualHoldTime = 0, advertised = Map.empty, new = None\<rparr>"

definition ex_world :: world where
  "ex_world = \<lparr>wire = [], closedc = [], sends = []\<rparr>"

text \<open>
  \<open>ex_connected\<close> and \<open>ex_world1\<close>: session and world after \<^verbatim>\<open>Set\<close> of 10.1.0.0/24 and a
  successful \<^verbatim>\<open>connect\<close> on the connection \<open>1\<close>, the peer asking for a hold time of
  30 s. \<open>ex_ibgp\<close>: the same with a peer in the local AS. \<open>ex_waiting\<close>: the session after
  the first pass, when the writer waits. \<open>ex_world_fail\<close>: the world in which the next
  write fails.
\<close>

definition ex_world1 :: world where
  "ex_world1 =
     \<lparr>wire = [(1, OPEN 65001 [10, 0, 0, 1] 90000000000), (1, KEEPALIVE)], closedc = [],
      sends = []\<rparr>"

definition ex_connected :: Session where
  "ex_connected =
     ex_session\<lparr>newHoldTime := True, conn := Some 1, actualHoldTime := 30000000000,
                new := Some [''10.1.0.0/24'' \<mapsto> ex_adv1]\<rparr>"

definition ex_ibgp :: Session where
  "ex_ibgp = ex_connected\<lparr>peerASN := 65001\<rparr>"

definition ex_waiting :: Session where
  "ex_waiting = ex_connected\<lparr>advertised := [''10.1.0.0/24'' \<mapsto> ex_adv1], new := None\<rparr>"

definition ex_world_fail :: world where
  "ex_world_fail = ex_world1\<lparr>sends := [False]\<rparr>"

definition ex_idle :: turn where
  "ex_idle = \<lparr>during_wait = [], order_new = [], order_adv = []\<rparr>"

text \<open>
  \<open>ex_set12\<close>: the waiting session after \<^verbatim>\<open>Set\<close> of both prefixes. \<open>ex_both\<close>: the
  session once both are advertised. \<open>ex_set2\<close>: that session after \<^verbatim>\<open>Set\<close> of 10.2.0.0/24
  alone.
\<close>

definition ex_set12 :: Session where
  "ex_set12 = snd (Set [ex_adv1, ex_adv2] ex_waiting)"

definition ex_both :: Session where
  "ex_both = ex_waiting\<lparr>advertised := [''10.1.0.0/24'' \<mapsto> ex_adv1, ''10.2.0.0/24'' \<mapsto> ex_adv2]\<rparr>"

definition ex_set2 :: Session where
  "ex_set2 = snd (Set [ex_adv2] ex_both)"

text \<open>\<open>ex_aborted\<close>: the session \<open>ex_set12\<close> after a diff pass whose first write fails.\<close>

definition ex_aborted :: Session where
  "ex_aborted =
     snd (snd (sendUpdates_diff 65001 [''10.1.0.0/24'', ''10.2.0.0/24''] [''10.1.0.0/24'']
       ex_world_fail ex_set12))"

text \<open>
  \<open>ex_nil_connected\<close>: the session after \<^verbatim>\<open>Set\<close> of 10.2.0.0/24 with nil communities and
  \<^verbatim>\<open>connect\<close>. \<open>ex_nil_set\<close>: the waiting session that has advertised 10.2.0.0/24 with
  nil communities, after \<^verbatim>\<open>Set\<close> of 10.2.0.0/24 with an empty community slice.
\<close>

definition ex_nil_connected :: Session where
  "ex_nil_connected =
     snd (snd (connect (Some 1) (Some (65002, 30000000000)) ex_world (snd (Set [ex_adv2_nil] ex_session))))"

definition ex_nil_set :: Session where
  "ex_nil_set =
     snd (Set [ex_adv2] (ex_waiting\<lparr>advertised := [''10.2.0.0/24'' \<mapsto> ex_adv2_nil]\<rparr>))"

text \<open>
  Sessions after \<^verbatim>\<open>connect\<close> with other hold times: 10 s asked for by the peer; 1 ns
  configured locally; 0 asked for by the peer.
\<close>

definition ex_hold10 :: Session where
  "ex_hold10 = snd (snd (connect (Some 1) (Some (65002, 10000000000)) ex_world ex_session))"

definition ex_hold1ns :: Session where
  "ex_hold1ns =
     snd (snd (connect (Some 1) (Some (65002, 30000000000)) ex_world (ex_session\<lparr>holdTime := 1\<rparr>)))"

definition ex_hold0 :: Session where
  "ex_hold0 = snd (snd (connect (Some 1) (Some (65002, 0)) ex_world ex_session))"

section \<open>Auxiliary facts\<close>

subsection \<open>Addresses, slices and \<open>Set\<close>\<close>

lemma To4_None_iff: "(To4 a = None) = (\<not> is_IPv4 a)"
  by (simp add: To4_def is_IPv4_def)

lemma IP_Equal_refl [simp]: "IP_Equal a a"
  by (simp add: IP_Equal_def)

lemma DeepEqual_eq: "DeepEqual xs ys = (xs = ys)"
  by (cases xs; cases ys) (auto simp: DeepEqual_def list_all2_eq [symmetric])

lemma already_sent_peer_has: "already_sent s k adv = peer_has s k adv"
  by (simp add: already_sent_def peer_has_def DeepEqual_eq split: option.splits)

lemma count_list_distinct:
  "distinct xs \<Longrightarrow> count_list xs x = (if x \<in> set xs then 1 else 0)"
  by (induction xs) auto

text \<open>
  \<^verbatim>\<open>Set\<close> fails exactly on an invalid advertisement, and otherwise installs
  \<open>desired_map\<close> of its arguments.
\<close>

lemma Set_loop_Inl_iff:
  "(\<exists>e. Set_loop advs m = Inl e) = (\<exists>adv\<in>set advs. invalid_adv adv)"
  by (induction advs arbitrary: m) (auto simp: To4_None_iff invalid_adv_def)

lemma Set_loop_valid:
  "\<forall>adv\<in>set advs. \<not> invalid_adv adv \<Longrightarrow> Set_loop advs m = Inr (m ++ desired_map advs)"
proof (induction advs arbitrary: m)
  case Nil
  then show ?case by (simp add: desired_map_def)
next
  case (Cons adv advs)
  have "m(prefix_key adv \<mapsto> adv) ++ desired_map advs = m ++ desired_map (adv # advs)"
    by (rule ext) (simp add: desired_map_def map_add_def split: option.splits)
  with Cons show ?case
    by (simp add: To4_None_iff invalid_adv_def prefix_key_def)
qed

lemma Set_error_iff:
  "(fst (Set advs s) \<noteq> None) = (\<exists>adv\<in>set advs. invalid_adv adv)"
  using Set_loop_Inl_iff [of advs Map.empty]
  by (cases "Set_loop advs Map.empty") (auto simp: Set_def)

lemma Set_valid:
  "\<forall>adv\<in>set advs. \<not> invalid_adv adv \<Longrightarrow> Set advs s = (None, s\<lparr>new := Some (desired_map advs)\<rparr>)"
  by (simp add: Set_def Set_loop_valid)

lemma Set_ok_valid: "fst (Set advs s) = None \<Longrightarrow> \<forall>adv\<in>set advs. \<not> invalid_adv adv"
  using Set_error_iff [of advs s] by simp

lemma desired_map_last:
  assumes "advs = pre @ adv # post" "\<forall>b\<in>set post. prefix_key b \<noteq> prefix_key adv"
  shows "desired_map advs (prefix_key adv) = Some adv"
proof -
  have "map_of (rev (map (\<lambda>adv. (prefix_key adv, adv)) post)) (prefix_key adv) = None"
    using assms(2) by (force simp: map_of_eq_None_iff)
  then show ?thesis
    by (simp add: assms(1) desired_map_def map_add_def)
qed

lemma dom_desired_map: "dom (desired_map advs) = prefix_key ` set advs"
  by (force simp: desired_map_def dom_map_of_conv_image_fst)

lemma ran_desired_map: "desired_map advs k = Some adv \<Longrightarrow> adv \<in> set advs \<and> prefix_key adv = k"
  by (auto simp: desired_map_def dest!: map_of_SomeD)

subsection \<open>Writes, \<open>abort\<close> and the promotion of the pending set\<close>

lemma conn_write_Some:
  "conn_write (Some c) m w = (r, w') \<Longrightarrow>
     closedc w' = closedc w \<and> r \<noteq> NilConn \<and>
     (r = Sent \<longrightarrow> wire w' = wire w @ [(c, m)]) \<and> (r = Failed \<longrightarrow> wire w' = wire w)"
  by (auto simp: conn_write_def split: list.splits if_splits)

lemma conn_write_ok:
  "next_write_ok w \<Longrightarrow>
     \<exists>w2. conn_write (Some c) m w = (Sent, w2) \<and> wire w2 = wire w @ [(c, m)] \<and>
          closedc w2 = closedc w"
  by (auto simp: next_write_ok_def conn_write_def split: list.splits)

lemma abort_conn [simp]: "conn (snd (abort w s)) = None"
  by (simp add: abort_def split: option.splits)

lemma abort_new [simp]: "new (snd (abort w s)) = None"
  by (simp add: abort_def split: option.splits)

lemma abort_advertised:
  "advertised (snd (abort w s)) = (case new s of Some n \<Rightarrow> n | None \<Rightarrow> advertised s)"
  by (simp add: abort_def split: option.splits)

lemma abort_wire [simp]: "wire (fst (abort w s)) = wire w"
  by (simp add: abort_def conn_Close_def split: option.splits)

lemma abort_closedc:
  "closedc (fst (abort w s)) = (case conn s of Some c \<Rightarrow> closedc w @ [c] | None \<Rightarrow> closedc w)"
  by (simp add: abort_def conn_Close_def split: option.splits)

lemma abort_closed [simp]: "closed (snd (abort w s)) = closed s"
  by (simp add: abort_def split: option.splits)

lemma promote_conn [simp]: "conn (promote s) = conn s"
  by (simp add: promote_def split: option.splits)

lemma promote_new [simp]: "new (promote s) = None"
  by (simp add: promote_def split: option.splits)

lemma promote_advertised:
  "advertised (promote s) = (case new s of Some n \<Rightarrow> n | None \<Rightarrow> advertised s)"
  by (simp add: promote_def split: option.splits)

lemma apply_events_Nil [simp]: "apply_events [] ws = ws"
  by (simp add: apply_events_def)

subsection \<open>The first pass\<close>

text \<open>
  With a connection, the first loop either runs to its end, having written one UPDATE
  for every entry of \<open>advertised\<close> and left the session alone, or stops at a failed
  write, after \<open>abort\<close>. Without a connection it cannot return an error.
\<close>

lemma first_updates_None:
  assumes "conn s = Some c"
    and "first_updates a ks w s = (None, w', s')"
  shows "s' = s \<and> closedc w' = closedc w \<and>
         wire w' = wire w @ map (\<lambda>k. (c, UPDATE a (the (advertised s k))))
                     (filter (\<lambda>k. advertised s k \<noteq> None) ks)"
  using assms
proof (induction ks arbitrary: w)
  case Nil
  then show ?case by simp
next
  case (Cons k ks)
  show ?case
  proof (cases "advertised s k")
    case None
    with Cons show ?thesis by simp
  next
    case (Some adv)
    obtain r w1 where wr: "conn_write (Some c) (UPDATE a adv) w = (r, w1)"
      by (cases "conn_write (Some c) (UPDATE a adv) w")
    from conn_write_Some [OF wr] Cons.prems Some wr
    have r: "r = Sent" and rest: "first_updates a ks w1 s = (None, w', s')"
      by (cases r; simp add: sendUpdate_def split: prod.splits)+
    from conn_write_Some [OF wr] r
    have w1: "wire w1 = wire w @ [(c, UPDATE a adv)]" "closedc w1 = closedc w"
      by simp_all
    from Cons.IH [OF Cons.prems(1) rest] w1 Some show ?thesis
      by simp
  qed
qed

lemma first_updates_Some:
  assumes "conn s = Some c"
    and "first_updates a ks w s = (Some r, w', s')"
  shows "(\<exists>k. r = Return (Some (ErrUpdate k))) \<and> conn s' = None \<and> new s' = None \<and>
         advertised s' = (case new s of Some n \<Rightarrow> n | None \<Rightarrow> advertised s) \<and>
         closedc w' = closedc w @ [c]"
  using assms
proof (induction ks arbitrary: w)
  case Nil
  then show ?case by simp
next
  case (Cons k ks)
  show ?case
  proof (cases "advertised s k")
    case None
    with Cons show ?thesis by simp
  next
    case (Some adv)
    obtain x w1 where wr: "conn_write (Some c) (UPDATE a adv) w = (x, w1)"
      by (cases "conn_write (Some c) (UPDATE a adv) w")
    note cw = conn_write_Some [OF wr]
    show ?thesis
    proof (cases x)
      case Sent
      with Cons.prems Some wr have "first_updates a ks w1 s = (Some r, w', s')"
        by (simp add: sendUpdate_def)
      from Cons.IH [OF Cons.prems(1) this] cw show ?thesis by simp
    next
      case Failed
      with Cons.prems Some wr
      have "r = Return (Some (ErrUpdate k))" "w' = fst (abort w1 s)" "s' = snd (abort w1 s)"
        by (auto simp: sendUpdate_def split: prod.splits)
      with cw Cons.prems(1) show ?thesis
        by (simp add: abort_advertised abort_closedc)
    next
      case NilConn
      with cw show ?thesis by simp
    qed
  qed
qed

lemma first_updates_no_error_without_conn:
  "conn s = None \<Longrightarrow> first_updates a ks w s = (Some r, w', s') \<Longrightarrow> r = Panic"
  by (induction ks arbitrary: w)
     (auto simp: sendUpdate_def conn_write_def split: option.splits)

subsection \<open>The diff pass\<close>

lemma diff_updates_None:
  assumes "conn s = Some c"
    and "diff_updates a ks w s = (None, w', s')"
  shows "s' = s \<and> closedc w' = closedc w \<and>
         wire w' = wire w @ map (\<lambda>k. (c, UPDATE a (the (lookup_new s k))))
                     (filter (\<lambda>k. lookup_new s k \<noteq> None \<and> \<not> already_sent s k (the (lookup_new s k))) ks)"
  using assms
proof (induction ks arbitrary: w)
  case Nil
  then show ?case by simp
next
  case (Cons k ks)
  show ?case
  proof (cases "lookup_new s k")
    case None
    with Cons show ?thesis by simp
  next
    case (Some adv)
    show ?thesis
    proof (cases "already_sent s k adv")
      case True
      with Some Cons show ?thesis by simp
    next
      case False
      obtain r w1 where wr: "conn_write (Some c) (UPDATE a adv) w = (r, w1)"
        by (cases "conn_write (Some c) (UPDATE a adv) w")
      from conn_write_Some [OF wr] Cons.prems Some False wr
      have r: "r = Sent" and rest: "diff_updates a ks w1 s = (None, w', s')"
        by (cases r; simp add: sendUpdate_def split: prod.splits)+
      from conn_write_Some [OF wr] r have w1: "wire w1 = wire w @ [(c, UPDATE a adv)]" "closedc w1 = closedc w"
        by simp_all
      from Cons.IH [OF Cons.prems(1) rest] w1 Some False show ?thesis
        by simp
    qed
  qed
qed

lemma diff_updates_Some:
  assumes "conn s = Some c"
    and "diff_updates a ks w s = (Some r, w', s')"
  shows "(\<exists>k. r = Return (Some (ErrUpdate k))) \<and> conn s' = None \<and> new s' = None \<and>
         advertised s' = (case new s of Some n \<Rightarrow> n | None \<Rightarrow> advertised s) \<and>
         closedc w' = closedc w @ [c]"
  using assms
proof (induction ks arbitrary: w)
  case Nil
  then show ?case by simp
next
  case (Cons k ks)
  show ?case
  proof (cases "lookup_new s k")
    case None
    with Cons show ?thesis by simp
  next
    case (Some adv)
    show ?thesis
    proof (cases "already_sent s k adv")
      case True
      with Some Cons show ?thesis by simp
    next
      case False
      obtain x w1 where wr: "conn_write (Some c) (UPDATE a adv) w = (x, w1)"
        by (cases "conn_write (Some c) (UPDATE a adv) w")
      note cw = conn_write_Some [OF wr]
      show ?thesis
      proof (cases x)
        case Sent
        with Cons.prems Some False wr have "diff_updates a ks w1 s = (Some r, w', s')"
          by (simp add: sendUpdate_def)
        from Cons.IH [OF Cons.prems(1) this] cw show ?thesis by simp
      next
        case Failed
        with Cons.prems Some False wr
        have "r = Return (Some (ErrUpdate k))" "w' = fst (abort w1 s)" "s' = snd (abort w1 s)"
          by (auto simp: sendUpdate_def split: prod.splits)
        with cw Cons.prems(1) show ?thesis
          by (simp add: abort_advertised abort_closedc)
      next
        case NilConn
        with cw show ?thesis by simp
      qed
    qed
  qed
qed

lemma wdr_loop_eq:
  "wdr_loop ks s acc =
     acc @ map (\<lambda>k. Prefix (the (advertised s k)))
             (filter (\<lambda>k. advertised s k \<noteq> None \<and> lookup_new s k = None) ks)"
  by (induction ks arbitrary: acc) (auto split: option.splits)

lemma sendUpdates_diff_None:
  assumes "conn s = Some c"
    and "sendUpdates_diff a kn ka w s = (None, w', s')"
  shows "s' = commit s \<and> closedc w' = closedc w \<and>
         wire w' = wire w @
           map (\<lambda>k. (c, UPDATE a (the (lookup_new s k))))
             (filter (\<lambda>k. lookup_new s k \<noteq> None \<and> \<not> already_sent s k (the (lookup_new s k))) kn) @
           (if wdr_loop ka s [] = [] then [] else [(c, WITHDRAW (wdr_loop ka s []))])"
proof -
  obtain r1 w1 s1 where du: "diff_updates a kn w s = (r1, w1, s1)"
    by (cases "diff_updates a kn w s")
  with assms(2) have r1: "r1 = None"
    by (cases r1) (simp_all add: sendUpdates_diff_def)
  note d = diff_updates_None [OF assms(1) du [unfolded r1]]
  show ?thesis
  proof (cases "wdr_loop ka s [] = []")
    case True
    with assms(2) du r1 d show ?thesis
      by (simp add: sendUpdates_diff_def)
  next
    case False
    obtain x w2 where wr: "conn_write (Some c) (WITHDRAW (wdr_loop ka s [])) w1 = (x, w2)"
      by (cases "conn_write (Some c) (WITHDRAW (wdr_loop ka s [])) w1")
    note cw = conn_write_Some [OF wr]
    from assms du r1 d False wr have "x = Sent" "w' = w2" "s' = commit s"
      by (cases x; simp add: sendUpdates_diff_def sendWithdraw_def split: prod.splits)+
    with cw d False show ?thesis by simp
  qed
qed

lemma sendUpdates_diff_Some:
  assumes "conn s = Some c"
    and "sendUpdates_diff a kn ka w s = (Some r, w', s')"
  shows "(\<exists>e. r = Return (Some e) \<and> e \<noteq> errClosed) \<and> conn s' = None \<and> new s' = None \<and>
         advertised s' = (case new s of Some n \<Rightarrow> n | None \<Rightarrow> advertised s) \<and>
         closedc w' = closedc w @ [c]"
proof -
  obtain r1 w1 s1 where du: "diff_updates a kn w s = (r1, w1, s1)"
    by (cases "diff_updates a kn w s")
  show ?thesis
  proof (cases r1)
    case (Some x)
    with assms(2) du have "x = r" "w1 = w'" "s1 = s'"
      by (simp_all add: sendUpdates_diff_def)
    with diff_updates_Some [OF assms(1), of a kn w r w' s'] du Some show ?thesis by auto
  next
    case None
    note d = diff_updates_None [OF assms(1) du [unfolded None]]
    obtain x w2 where wr: "conn_write (Some c) (WITHDRAW (wdr_loop ka s [])) w1 = (x, w2)"
      by (cases "conn_write (Some c) (WITHDRAW (wdr_loop ka s [])) w1")
    note cw = conn_write_Some [OF wr]
    from assms du None d wr cw
    have "x = Failed \<and> r = Return (Some (ErrWithdraw (wdr_loop ka s []))) \<and>
          w' = fst (abort w2 s) \<and> s' = snd (abort w2 s)"
      by (cases x; cases "wdr_loop ka s [] = []")
         (auto simp: sendUpdates_diff_def sendWithdraw_def Let_def split: prod.splits)
    with cw d assms(1) show ?thesis
      by (simp add: abort_advertised abort_closedc)
  qed
qed

lemma filter_UPDATE_map [simp]:
  "filter (\<lambda>cm. is_UPDATE (snd cm)) (map (\<lambda>k. (c, UPDATE a (f k))) ks) = map (\<lambda>k. (c, UPDATE a (f k))) ks"
  by (induction ks) (simp_all add: is_UPDATE_def)

lemma filter_WITHDRAW_map [simp]:
  "filter (\<lambda>cm. is_WITHDRAW (snd cm)) (map (\<lambda>k. (c, UPDATE a (f k))) ks) = []"
  by (induction ks) (simp_all add: is_WITHDRAW_def)

lemma diff_pass_emitted:
  assumes "conn s = Some c" and "new s = Some n"
    and "fst (sendUpdates_diff a kn ka w s) = None"
  shows "emitted w (fst (snd (sendUpdates_diff a kn ka w s))) =
           map (\<lambda>k. (c, UPDATE a (the (n k)))) (filter (\<lambda>k. n k \<noteq> None \<and> \<not> peer_has s k (the (n k))) kn) @
           (if wdr_loop ka s [] = [] then [] else [(c, WITHDRAW (wdr_loop ka s []))])"
    and "snd (snd (sendUpdates_diff a kn ka w s)) = s\<lparr>advertised := n, new := None\<rparr>"
    and "closedc (fst (snd (sendUpdates_diff a kn ka w s))) = closedc w"
proof -
  obtain w' s' where d: "sendUpdates_diff a kn ka w s = (None, w', s')"
    using assms(3) by (cases "sendUpdates_diff a kn ka w s") auto
  have l: "lookup_new s = n"
    by (rule ext) (simp add: lookup_new_def assms(2))
  note r = sendUpdates_diff_None [OF assms(1) d]
  from r show "emitted w (fst (snd (sendUpdates_diff a kn ka w s))) =
           map (\<lambda>k. (c, UPDATE a (the (n k)))) (filter (\<lambda>k. n k \<noteq> None \<and> \<not> peer_has s k (the (n k))) kn) @
           (if wdr_loop ka s [] = [] then [] else [(c, WITHDRAW (wdr_loop ka s []))])"
    by (simp add: d l emitted_def already_sent_peer_has)
  from r show "snd (snd (sendUpdates_diff a kn ka w s)) = s\<lparr>advertised := n, new := None\<rparr>"
    by (simp add: d commit_def assms(2))
  from r show "closedc (fst (snd (sendUpdates_diff a kn ka w s))) = closedc w"
    by (simp add: d)
qed

subsection \<open>The loop of the writer\<close>

lemma idle_turns_block:
  "new s = None \<Longrightarrow> conn s \<noteq> None \<Longrightarrow> \<forall>t\<in>set ts. during_wait t = [] \<Longrightarrow>
     sendUpdates_loop a ts w s = (Blocked, w, s)"
  by (induction ts) auto

lemma sendUpdates_loop_send_error:
  "sendUpdates_loop a ts w s = (Return (Some e), w', s') \<Longrightarrow> e \<noteq> errClosed \<Longrightarrow>
     conn s' = None \<and> new s' = None"
proof (induction ts arbitrary: w s)
  case Nil
  then show ?case by simp
next
  case (Cons t ts)
  consider (wait) "new s = None" "conn s \<noteq> None"
    | (ret) "\<not> (new s = None \<and> conn s \<noteq> None)" "closed s \<or> conn s = None"
    | (pass) c n where "conn s = Some c" "new s = Some n" "\<not> closed s"
    by (cases "new s"; cases "conn s"; cases "closed s") simp_all
  then show ?case
  proof cases
    case wait
    obtain w1 s1 where e: "apply_events (during_wait t) (w, s) = (w1, s1)"
      by (cases "apply_events (during_wait t) (w, s)")
    with Cons.prems wait have "sendUpdates_loop a ts w1 s1 = (Return (Some e), w', s')" by auto
    from Cons.IH [OF this Cons.prems(2)] show ?thesis .
  next
    case ret
    with Cons.prems show ?thesis by (auto split: if_splits)
  next
    case pass
    obtain r1 w1 s1 where d: "sendUpdates_diff a (order_new t) (order_adv t) w s = (r1, w1, s1)"
      by (cases "sendUpdates_diff a (order_new t) (order_adv t) w s")
    show ?thesis
    proof (cases r1)
      case None
      with Cons.prems pass d have "sendUpdates_loop a ts w1 s1 = (Return (Some e), w', s')" by auto
      from Cons.IH [OF this Cons.prems(2)] show ?thesis .
    next
      case (Some x)
      with Cons.prems pass d have "w1 = w'" "s1 = s'" by auto
      with sendUpdates_diff_Some [OF pass(1) d [unfolded Some]] show ?thesis by simp
    qed
  qed
qed

lemma sendUpdates_send_error:
  assumes "sendUpdates ks ts w s = (Return (Some e), w', s')" and "e \<noteq> errClosed"
  shows "conn s' = None \<and> new s' = None"
proof -
  obtain r1 w1 s1 where f: "first_updates (wire_asn s) ks w (promote s) = (r1, w1, s1)"
    by (cases "first_updates (wire_asn s) ks w (promote s)")
  show ?thesis
  proof (cases r1)
    case None
    with assms(1) f have "sendUpdates_loop (wire_asn s) ts w1 s1 = (Return (Some e), w', s')"
      by (simp add: sendUpdates_def)
    from sendUpdates_loop_send_error [OF this assms(2)] show ?thesis .
  next
    case (Some x)
    with assms(1) f have x: "x = Return (Some e)" "w1 = w'" "s1 = s'"
      by (simp_all add: sendUpdates_def)
    show ?thesis
    proof (cases "conn s")
      case None
      with first_updates_no_error_without_conn [of "promote s" "wire_asn s" ks w x w1 s1] f Some x
      show ?thesis by simp
    next
      case (Some c)
      with first_updates_Some [of "promote s" c "wire_asn s" ks w x w1 s1] f \<open>r1 = Some x\<close> x
      show ?thesis by simp
    qed
  qed
qed

subsection \<open>What reaches the wire\<close>

text \<open>
  Every operation only appends to the wire. A property of messages that holds of all
  the writes an operation can make holds of everything it appends.
\<close>

lemma grows_refl [simp]: "grows P w w"
  by (simp add: grows_def)

lemma grows_trans: "grows P w w1 \<Longrightarrow> grows P w1 w2 \<Longrightarrow> grows P w w2"
  by (auto simp: grows_def)

lemma grows_same_wire: "wire w' = wire w \<Longrightarrow> grows P w w'"
  by (simp add: grows_def)

lemma grows_emitted:
  "grows P w w' \<Longrightarrow> wire w' = wire w @ emitted w w' \<and> list_all (\<lambda>cm. P (snd cm)) (emitted w w')"
  by (auto simp: grows_def emitted_def)

lemma conn_write_grows: "conn_write c m w = (r, w') \<Longrightarrow> P m \<Longrightarrow> grows P w w'"
  by (auto simp: conn_write_def grows_def split: option.splits list.splits if_splits)

lemma abort_grows: "abort w s = (w', s') \<Longrightarrow> grows P w w'"
  using abort_wire [of w s] by (simp add: grows_same_wire)

lemma first_updates_grows:
  assumes "\<And>k adv. advertised s k = Some adv \<Longrightarrow> P (UPDATE a adv)"
    and "first_updates a ks w s = (r, w', s')"
  shows "grows P w w'"
  using assms(2)
proof (induction ks arbitrary: w)
  case Nil
  then show ?case by simp
next
  case (Cons k ks)
  show ?case
  proof (cases "advertised s k")
    case None
    with Cons show ?thesis by simp
  next
    case (Some adv)
    obtain x w1 where wr: "conn_write (conn s) (UPDATE a adv) w = (x, w1)"
      by (cases "conn_write (conn s) (UPDATE a adv) w")
    from wr assms(1) [OF Some] have g1: "grows P w w1" by (rule conn_write_grows)
    show ?thesis
    proof (cases x)
      case Sent
      with Cons.prems Some wr have "first_updates a ks w1 s = (r, w', s')"
        by (simp add: sendUpdate_def)
      from Cons.IH [OF this] g1 show ?thesis by (rule grows_trans [rotated])
    next
      case Failed
      with Cons.prems Some wr have "abort w1 s = (w', s')"
        by (simp add: sendUpdate_def split: prod.splits)
      from g1 abort_grows [OF this] show ?thesis by (rule grows_trans)
    next
      case NilConn
      with Cons.prems Some wr g1 show ?thesis by (simp add: sendUpdate_def)
    qed
  qed
qed

lemma diff_updates_grows:
  assumes "\<And>k adv. lookup_new s k = Some adv \<Longrightarrow> P (UPDATE a adv)"
    and "diff_updates a ks w s = (r, w', s')"
  shows "grows P w w'"
  using assms(2)
proof (induction ks arbitrary: w)
  case Nil
  then show ?case by simp
next
  case (Cons k ks)
  show ?case
  proof (cases "lookup_new s k")
    case None
    with Cons show ?thesis by simp
  next
    case (Some adv)
    show ?thesis
    proof (cases "already_sent s k adv")
      case True
      with Some Cons show ?thesis by simp
    next
      case False
      obtain x w1 where wr: "conn_write (conn s) (UPDATE a adv) w = (x, w1)"
        by (cases "conn_write (conn s) (UPDATE a adv) w")
      from wr assms(1) [OF Some] have g1: "grows P w w1" by (rule conn_write_grows)
      show ?thesis
      proof (cases x)
        case Sent
        with Cons.prems Some False wr have "diff_updates a ks w1 s = (r, w', s')"
          by (simp add: sendUpdate_def)
        from Cons.IH [OF this] g1 show ?thesis by (rule grows_trans [rotated])
      next
        case Failed
        with Cons.prems Some False wr have "abort w1 s = (w', s')"
          by (simp add: sendUpdate_def split: prod.splits)
        from g1 abort_grows [OF this] show ?thesis by (rule grows_trans)
      next
        case NilConn
        with Cons.prems Some False wr g1 show ?thesis by (simp add: sendUpdate_def)
      qed
    qed
  qed
qed

lemma sendUpdates_diff_grows:
  assumes "\<And>k adv. lookup_new s k = Some adv \<Longrightarrow> P (UPDATE a adv)"
    and "\<And>wdr. P (WITHDRAW wdr)"
    and "sendUpdates_diff a kn ka w s = (r, w', s')"
  shows "grows P w w'"
proof -
  obtain r1 w1 s1 where du: "diff_updates a kn w s = (r1, w1, s1)"
    by (cases "diff_updates a kn w s")
  note g1 = diff_updates_grows [of s P a, OF assms(1) du]
  show ?thesis
  proof (cases r1)
    case (Some x)
    with assms(3) du g1 show ?thesis by (simp add: sendUpdates_diff_def)
  next
    case None
    show ?thesis
    proof (cases "wdr_loop ka s1 [] = []")
      case True
      with assms(3) du None g1 show ?thesis by (simp add: sendUpdates_diff_def)
    next
      case False
      obtain x w2 where wr: "conn_write (conn s1) (WITHDRAW (wdr_loop ka s1 [])) w1 = (x, w2)"
        by (cases "conn_write (conn s1) (WITHDRAW (wdr_loop ka s1 [])) w1")
      from wr assms(2) have g2: "grows P w1 w2" by (rule conn_write_grows)
      from g1 g2 have g: "grows P w w2" by (rule grows_trans)
      show ?thesis
      proof (cases x)
        case Failed
        with assms(3) du None False wr have "abort w2 s1 = (w', s')"
          by (simp add: sendUpdates_diff_def sendWithdraw_def split: prod.splits)
        from g abort_grows [OF this] show ?thesis by (rule grows_trans)
      qed (use assms(3) du None False wr g in \<open>simp_all add: sendUpdates_diff_def sendWithdraw_def\<close>)
    qed
  qed
qed

lemma Session_sendKeepalive_grows:
  assumes "P KEEPALIVE" and "Session_sendKeepalive w s = (r, w', s')"
  shows "grows P w w'"
proof (cases "closed s \<or> conn s = None")
  case True
  with assms(2) show ?thesis by (auto simp: Session_sendKeepalive_def split: if_splits)
next
  case False
  then obtain c where c: "conn s = Some c" "\<not> closed s" by auto
  obtain x w1 where wr: "conn_write (Some c) KEEPALIVE w = (x, w1)"
    by (cases "conn_write (Some c) KEEPALIVE w")
  from wr assms(1) have g1: "grows P w w1" by (rule conn_write_grows)
  show ?thesis
  proof (cases "x = Sent")
    case True
    with assms(2) c wr g1 show ?thesis
      by (simp add: Session_sendKeepalive_def sendKeepalive_def)
  next
    case False
    with assms(2) c wr have "abort w1 s = (w', s')"
      by (cases x) (simp_all add: Session_sendKeepalive_def sendKeepalive_def split: prod.splits)
    from g1 abort_grows [OF this] show ?thesis by (rule grows_trans)
  qed
qed

lemma apply_event_grows: "apply_event e (w, s) = (w', s') \<Longrightarrow> grows (carries_asn a) w w'"
proof (cases e)
  case (EvSet advs)
  then show "apply_event e (w, s) = (w', s') \<Longrightarrow> grows (carries_asn a) w w'" by auto
next
  case EvClose
  then show "apply_event e (w, s) = (w', s') \<Longrightarrow> grows (carries_asn a) w w'"
    by (auto simp: Close_def dest: abort_grows)
next
  case (EvReaderExit c)
  then show "apply_event e (w, s) = (w', s') \<Longrightarrow> grows (carries_asn a) w w'"
    by (auto simp: consumeBGP_deferred_def conn_Close_def grows_same_wire
             dest: abort_grows split: if_splits)
next
  case EvTick
  then show "apply_event e (w, s) = (w', s') \<Longrightarrow> grows (carries_asn a) w w'"
    by (cases "Session_sendKeepalive w s")
       (auto dest: Session_sendKeepalive_grows [of "carries_asn a", rotated] simp: carries_asn_def)
qed

lemma apply_events_grows: "apply_events evs (w, s) = (w', s') \<Longrightarrow> grows (carries_asn a) w w'"
proof (induction evs arbitrary: w s)
  case Nil
  then show ?case by (simp add: apply_events_def)
next
  case (Cons e evs)
  obtain w1 s1 where e: "apply_event e (w, s) = (w1, s1)"
    by (cases "apply_event e (w, s)")
  with Cons.prems have "apply_events evs (w1, s1) = (w', s')"
    by (simp add: apply_events_def)
  from apply_event_grows [OF e] Cons.IH [OF this] show ?case by (rule grows_trans)
qed

lemma sendUpdates_loop_grows:
  "sendUpdates_loop a ts w s = (r, w', s') \<Longrightarrow> grows (carries_asn a) w w'"
proof (induction ts arbitrary: w s)
  case Nil
  then show ?case by simp
next
  case (Cons t ts)
  consider (wait) "new s = None \<and> conn s \<noteq> None"
    | (ret) "\<not> (new s = None \<and> conn s \<noteq> None)" "closed s \<or> conn s = None"
    | (skip) "\<not> (new s = None \<and> conn s \<noteq> None)" "\<not> (closed s \<or> conn s = None)" "new s = None"
    | (pass) "\<not> (new s = None \<and> conn s \<noteq> None)" "\<not> (closed s \<or> conn s = None)" "new s \<noteq> None"
    by (cases "new s"; cases "conn s"; cases "closed s") simp_all
  then show ?case
  proof cases
    case wait
    obtain w1 s1 where e: "apply_events (during_wait t) (w, s) = (w1, s1)"
      by (cases "apply_events (during_wait t) (w, s)")
    with Cons.prems wait have "sendUpdates_loop a ts w1 s1 = (r, w', s')" by auto
    from apply_events_grows [OF e] Cons.IH [OF this] show ?thesis by (rule grows_trans)
  next
    case ret
    with Cons.prems show ?thesis by (auto split: if_splits)
  next
    case skip
    then show ?thesis by simp
  next
    case pass
    obtain r1 w1 s1 where d: "sendUpdates_diff a (order_new t) (order_adv t) w s = (r1, w1, s1)"
      by (cases "sendUpdates_diff a (order_new t) (order_adv t) w s")
    have g1: "grows (carries_asn a) w w1"
      by (rule sendUpdates_diff_grows [OF _ _ d]) (simp_all add: carries_asn_def)
    show ?thesis
    proof (cases r1)
      case None
      with Cons.prems pass d have "sendUpdates_loop a ts w1 s1 = (r, w', s')" by auto
      from g1 Cons.IH [OF this] show ?thesis by (rule grows_trans)
    next
      case (Some x)
      with Cons.prems pass d g1 show ?thesis by auto
    qed
  qed
qed

lemma sendUpdates_grows:
  assumes "sendUpdates ks ts w s = (r, w', s')"
  shows "grows (carries_asn (wire_asn s)) w w'"
proof -
  obtain r1 w1 s1 where f: "first_updates (wire_asn s) ks w (promote s) = (r1, w1, s1)"
    by (cases "first_updates (wire_asn s) ks w (promote s)")
  have g1: "grows (carries_asn (wire_asn s)) w w1"
    by (rule first_updates_grows [OF _ f]) (simp add: carries_asn_def)
  show ?thesis
  proof (cases r1)
    case None
    with assms f have "sendUpdates_loop (wire_asn s) ts w1 s1 = (r, w', s')"
      by (simp add: sendUpdates_def)
    from g1 sendUpdates_loop_grows [OF this] show ?thesis by (rule grows_trans)
  next
    case (Some x)
    with assms f g1 show ?thesis by (simp add: sendUpdates_def)
  qed
qed

subsection \<open>The connector\<close>

lemma connect_ok:
  assumes "fst (connect dial (Some (pa, requestedHold)) w s) = None"
  shows "\<exists>c. dial = Some c \<and> pa = peerASN s \<and>
           snd (snd (connect dial (Some (pa, requestedHold)) w s)) =
             s\<lparr>actualHoldTime := min (holdTime s) requestedHold, newHoldTime := True, conn := Some c\<rparr>"
proof (cases dial)
  case None
  with assms show ?thesis by (simp add: connect_def)
next
  case (Some c)
  obtain x w1 where o: "sendOpen (Some c) (asn s) (routerID s) (holdTime s) w = (x, w1)"
    by (cases "sendOpen (Some c) (asn s) (routerID s) (holdTime s) w")
  obtain y w2 where k: "sendKeepalive (Some c) w1 = (y, w2)"
    by (cases "sendKeepalive (Some c) w1")
  from assms Some o k have "x = Sent" "pa = peerASN s" "y = Sent"
    by (cases x; cases y; simp add: connect_def split: if_splits)+
  with Some o k show ?thesis
    by (simp add: connect_def min_def Let_def)
qed

lemma resync_after_connect:
  assumes "advertised s1 = n" and "new s1 = None"
    and "fst (connect (Some c') (Some (pa, rh)) w1 s1) = None"
    and "distinct ks" and "set ks = dom n"
    and "fst (first_updates a ks w2 (promote (snd (snd (connect (Some c') (Some (pa, rh)) w1 s1))))) = None"
  shows "emitted w2 (fst (snd (first_updates a ks w2
           (promote (snd (snd (connect (Some c') (Some (pa, rh)) w1 s1))))))) =
         map (\<lambda>k. (c', UPDATE a (the (n k)))) ks"
proof -
  define s2 where "s2 = promote (snd (snd (connect (Some c') (Some (pa, rh)) w1 s1)))"
  from connect_ok [OF assms(3)] assms(1,2)
  have s2: "conn s2 = Some c'" "advertised s2 = n"
    by (auto simp: s2_def promote_def)
  obtain w' s' where f: "first_updates a ks w2 s2 = (None, w', s')"
    using assms(6) unfolding s2_def [symmetric] by (cases "first_updates a ks w2 s2") auto
  from assms(5) have "filter (\<lambda>k. n k \<noteq> None) ks = ks"
    by (auto simp: filter_id_conv)
  with first_updates_None [OF s2(1) f] s2(2) show ?thesis
    unfolding s2_def [symmetric] by (simp add: f emitted_def)
qed

subsection \<open>The example data\<close>

text \<open>
  The prefix strings of the example prefixes, the validity of the example
  advertisements, and how the example sessions arise from \<^verbatim>\<open>New\<close>, \<^verbatim>\<open>Set\<close> and
  \<^verbatim>\<open>connect\<close>.
\<close>

lemma ex_key1: "IPNet_String ex_net1 = ''10.1.0.0/24''"
  by code_simp

lemma ex_key2: "IPNet_String ex_net2 = ''10.2.0.0/24''"
  by code_simp

lemma ex_fields:
  "NextHop ex_adv2 = [10, 0, 0, 1]" "Communities ex_adv2 = Some []"
  "NextHop ex_adv2_nil = [10, 0, 0, 1]" "Communities ex_adv2_nil = None"
  "Prefix ex_adv2_nil = ex_net2" "Prefix ex_adv2 = ex_net2"
  "NextHop ex_adv1 = [10, 0, 0, 1]" "Communities ex_adv1 = Some [100]" "Prefix ex_adv1 = ex_net1"
  by (simp_all add: ex_adv1_def ex_adv2_def ex_adv2_nil_def)

lemma ex_adv_distinct: "ex_adv1b \<noteq> ex_adv2" "ex_adv1 \<noteq> ex_adv2"
  by (simp_all add: ex_adv1b_def ex_adv1_def ex_adv2_def ex_net1_def ex_net2_def)

lemma ex_valid1: "\<not> invalid_adv ex_adv1"
  by (simp add: invalid_adv_def ex_adv1_def ex_net1_def is_IPv4_def len_def)

lemma ex_valid1b: "\<not> invalid_adv ex_adv1b"
  by (simp add: invalid_adv_def ex_adv1b_def ex_net1_def is_IPv4_def len_def)

lemma ex_valid2: "\<not> invalid_adv ex_adv2"
  by (simp add: invalid_adv_def ex_adv2_def ex_net2_def is_IPv4_def len_def)

lemma ex_valid2_nil: "\<not> invalid_adv ex_adv2_nil"
  by (simp add: invalid_adv_def ex_adv2_nil_def ex_net2_def is_IPv4_def len_def)

lemma ex_pkey1: "prefix_key ex_adv1 = ''10.1.0.0/24''"
  by (simp add: prefix_key_def ex_adv1_def ex_key1)

lemma ex_pkey2: "prefix_key ex_adv2 = ''10.2.0.0/24''"
  by (simp add: prefix_key_def ex_adv2_def ex_key2)

lemma ex_pkey2_nil: "prefix_key ex_adv2_nil = ''10.2.0.0/24''"
  by (simp add: prefix_key_def ex_adv2_nil_def ex_key2)

lemma ex_desired2: "desired_map [ex_adv2] = [''10.2.0.0/24'' \<mapsto> ex_adv2]"
  by (simp add: desired_map_def ex_pkey2)

lemma ex_desired12:
  "desired_map [ex_adv1, ex_adv2] = [''10.1.0.0/24'' \<mapsto> ex_adv1, ''10.2.0.0/24'' \<mapsto> ex_adv2]"
  by (rule ext) (simp add: desired_map_def ex_pkey1 ex_pkey2)

lemma ex_New: "New ''192.0.2.1:179'' 65001 [10, 0, 0, 1] 65002 90000000000 = Inr ex_session"
  by (simp add: New_def To4_def ex_session_def)

lemma ex_Set1: "Set [ex_adv1] s = (None, s\<lparr>new := Some [''10.1.0.0/24'' \<mapsto> ex_adv1]\<rparr>)"
  by (simp add: Set_valid ex_valid1 desired_map_def ex_pkey1)

lemma ex_Set2: "Set [ex_adv2] s = (None, s\<lparr>new := Some [''10.2.0.0/24'' \<mapsto> ex_adv2]\<rparr>)"
  by (simp add: Set_valid ex_valid2 ex_desired2)

lemma ex_Set12:
  "Set [ex_adv1, ex_adv2] s =
     (None, s\<lparr>new := Some [''10.1.0.0/24'' \<mapsto> ex_adv1, ''10.2.0.0/24'' \<mapsto> ex_adv2]\<rparr>)"
  by (simp add: Set_valid ex_valid1 ex_valid2 ex_desired12)

lemma ex_connect:
  "connect (Some 1) (Some (65002, 30000000000)) ex_world (snd (Set [ex_adv1] ex_session)) =
     (None, ex_world1, ex_connected)"
  by (simp add: ex_Set1 connect_def sendOpen_def sendKeepalive_def conn_write_def
        ex_world_def ex_world1_def ex_session_def ex_connected_def)

lemma ex_connect_ok:
  "fst (connect (Some 1) (Some (65002, h)) ex_world (ex_session\<lparr>holdTime := l\<rparr>)) = None"
  by (simp add: connect_def sendOpen_def sendKeepalive_def conn_write_def ex_world_def
        ex_session_def Let_def)

lemma ex_session_holdTime: "ex_session\<lparr>holdTime := 90000000000\<rparr> = ex_session"
  by (simp add: ex_session_def)

lemma ex_set12_eq:
  "ex_set12 = ex_waiting\<lparr>new := Some [''10.1.0.0/24'' \<mapsto> ex_adv1, ''10.2.0.0/24'' \<mapsto> ex_adv2]\<rparr>"
  by (simp add: ex_set12_def Set_valid ex_valid1 ex_valid2 ex_desired12)

lemma ex_set2_eq: "ex_set2 = ex_both\<lparr>new := Some [''10.2.0.0/24'' \<mapsto> ex_adv2]\<rparr>"
  by (simp add: ex_set2_def Set_valid ex_valid2 ex_desired2)

lemma ex_nil_connected_eq:
  "ex_nil_connected = ex_connected\<lparr>new := Some [''10.2.0.0/24'' \<mapsto> ex_adv2_nil]\<rparr>"
  by (simp add: ex_nil_connected_def Set_valid ex_valid2_nil desired_map_def ex_pkey2_nil
        connect_def sendOpen_def sendKeepalive_def conn_write_def ex_world_def
        ex_session_def ex_connected_def)

lemma ex_nil_set_eq:
  "ex_nil_set = ex_waiting\<lparr>advertised := [''10.2.0.0/24'' \<mapsto> ex_adv2_nil],
                             new := Some [''10.2.0.0/24'' \<mapsto> ex_adv2]\<rparr>"
  by (simp add: ex_nil_set_def Set_valid ex_valid2 ex_desired2)

text \<open>
  The end-to-end scenarios 1 to 4 of the specification, as one run of the writer on the
  connection \<open>1\<close>: the first pass announces 10.1.0.0/24; after \<^verbatim>\<open>Set\<close> of both prefixes
  only 10.2.0.0/24 is announced; after \<^verbatim>\<open>Set\<close> of 10.2.0.0/24 alone 10.1.0.0/24 is
  withdrawn; when the reader ends, the connection is closed and the writer returns.
\<close>

lemma ex_scenario:
  "sendUpdates [''10.1.0.0/24'']
     [\<lparr>during_wait = [EvSet [ex_adv1, ex_adv2]], order_new = [], order_adv = []\<rparr>,
      \<lparr>during_wait = [], order_new = [''10.2.0.0/24'', ''10.1.0.0/24''], order_adv = [''10.1.0.0/24'']\<rparr>,
      \<lparr>during_wait = [EvSet [ex_adv2]], order_new = [], order_adv = []\<rparr>,
      \<lparr>during_wait = [], order_new = [''10.2.0.0/24''], order_adv = [''10.2.0.0/24'', ''10.1.0.0/24'']\<rparr>,
      \<lparr>during_wait = [EvReaderExit 1], order_new = [], order_adv = []\<rparr>,
      \<lparr>during_wait = [], order_new = [], order_adv = []\<rparr>]
     ex_world1 ex_connected =
   (Return None,
    \<lparr>wire = [(1, OPEN 65001 [10, 0, 0, 1] 90000000000), (1, KEEPALIVE),
             (1, UPDATE 65001 ex_adv1), (1, UPDATE 65001 ex_adv2), (1, WITHDRAW [ex_net1])],
     closedc = [1], sends = []\<rparr>,
    ex_connected\<lparr>conn := None, advertised := [''10.2.0.0/24'' \<mapsto> ex_adv2], new := None\<rparr>)"
  by (simp add: ex_connected_def ex_session_def
        sendUpdates_def wire_asn_def promote_def apply_events_def ex_Set2 ex_Set12 ex_fields
        sendUpdates_diff_def lookup_new_def already_sent_def DeepEqual_def sendUpdate_def
        sendWithdraw_def conn_write_def ex_world1_def commit_def consumeBGP_deferred_def
        abort_def conn_Close_def)

text \<open>Single passes on the example sessions, used by the witnesses below.\<close>

lemma ex_first_pass_ibgp:
  "sendUpdates [''10.1.0.0/24''] [] ex_world1 ex_ibgp =
     (Blocked, ex_world1\<lparr>wire := wire ex_world1 @ [(1, UPDATE 0 ex_adv1)]\<rparr>,
      ex_ibgp\<lparr>advertised := [''10.1.0.0/24'' \<mapsto> ex_adv1], new := None\<rparr>)"
  by (simp add: sendUpdates_def wire_asn_def promote_def sendUpdate_def conn_write_def
        ex_ibgp_def ex_connected_def ex_session_def ex_world1_def)

lemma ex_diff12:
  "sendUpdates_diff 65001 [''10.1.0.0/24'', ''10.2.0.0/24''] [''10.1.0.0/24''] ex_world1 ex_set12 =
     (None, ex_world1\<lparr>wire := wire ex_world1 @ [(1, UPDATE 65001 ex_adv2)]\<rparr>, ex_both)"
  by (simp add: ex_set12_eq ex_both_def ex_waiting_def ex_connected_def ex_session_def
        sendUpdates_diff_def lookup_new_def already_sent_def DeepEqual_def sendUpdate_def
        conn_write_def ex_world1_def commit_def ex_adv1_def)

lemma ex_diff2:
  "sendUpdates_diff 65001 [''10.2.0.0/24''] [''10.1.0.0/24'', ''10.2.0.0/24''] ex_world1 ex_set2 =
     (None, ex_world1\<lparr>wire := wire ex_world1 @ [(1, WITHDRAW [ex_net1])]\<rparr>,
      ex_waiting\<lparr>advertised := [''10.2.0.0/24'' \<mapsto> ex_adv2]\<rparr>)"
  by (simp add: ex_set2_eq ex_both_def ex_waiting_def ex_connected_def ex_session_def
        sendUpdates_diff_def lookup_new_def already_sent_def DeepEqual_def sendWithdraw_def
        conn_write_def ex_world1_def commit_def ex_adv1_def ex_adv2_def)

lemma ex_nil_diff:
  "sendUpdates_diff 65001 [''10.2.0.0/24''] [''10.2.0.0/24''] ex_world1 ex_nil_set =
     (None, ex_world1\<lparr>wire := wire ex_world1 @ [(1, UPDATE 65001 ex_adv2)]\<rparr>,
      ex_waiting\<lparr>advertised := [''10.2.0.0/24'' \<mapsto> ex_adv2]\<rparr>)"
  by (simp add: ex_nil_set_eq ex_waiting_def ex_connected_def ex_session_def
        sendUpdates_diff_def lookup_new_def already_sent_def DeepEqual_def sendUpdate_def
        conn_write_def ex_world1_def commit_def ex_adv2_nil_def ex_adv2_def)

lemma ex_nil_run:
  "sendUpdates [''10.2.0.0/24'']
     [\<lparr>during_wait = [EvSet [ex_adv2]], order_new = [], order_adv = []\<rparr>,
      \<lparr>during_wait = [], order_new = [''10.2.0.0/24''], order_adv = [''10.2.0.0/24'']\<rparr>]
     ex_world1 ex_nil_connected =
   (Blocked,
    ex_world1\<lparr>wire := wire ex_world1 @ [(1, UPDATE 65001 ex_adv2_nil), (1, UPDATE 65001 ex_adv2)]\<rparr>,
    ex_waiting\<lparr>advertised := [''10.2.0.0/24'' \<mapsto> ex_adv2]\<rparr>)"
  by (simp add: ex_nil_connected_eq ex_waiting_def ex_connected_def ex_session_def
        sendUpdates_def wire_asn_def promote_def apply_events_def ex_Set2 ex_fields
        sendUpdates_diff_def lookup_new_def already_sent_def DeepEqual_def sendUpdate_def
        conn_write_def ex_world1_def commit_def)

lemma ex_fail_first:
  "first_updates 65001 [''10.1.0.0/24'', ''10.2.0.0/24''] ex_world_fail (promote ex_set12) =
     (Some (Return (Some (ErrUpdate ''10.1.0.0/24''))),
      ex_world1\<lparr>closedc := [1]\<rparr>,
      ex_both\<lparr>conn := None\<rparr>)"
  by (simp add: ex_set12_eq ex_both_def ex_waiting_def ex_connected_def ex_session_def
        promote_def sendUpdate_def conn_write_def ex_world_fail_def ex_world1_def abort_def
        conn_Close_def)

lemma ex_fail_diff:
  "sendUpdates_diff 65001 [''10.1.0.0/24'', ''10.2.0.0/24''] [''10.1.0.0/24''] ex_world_fail ex_set12 =
     (Some (Return (Some (ErrUpdate ''10.2.0.0/24''))),
      ex_world1\<lparr>closedc := [1]\<rparr>,
      ex_both\<lparr>conn := None\<rparr>)"
  by (simp add: ex_set12_eq ex_both_def ex_waiting_def ex_connected_def ex_session_def
        sendUpdates_diff_def lookup_new_def already_sent_def DeepEqual_def ex_fields
        sendUpdate_def conn_write_def ex_world_fail_def ex_world1_def abort_def conn_Close_def)

lemma ex_fail_run:
  "sendUpdates [''10.1.0.0/24'', ''10.2.0.0/24''] [] ex_world_fail ex_set12 =
     (Return (Some (ErrUpdate ''10.1.0.0/24'')), ex_world1\<lparr>closedc := [1]\<rparr>, ex_both\<lparr>conn := None\<rparr>)"
proof -
  have a: "wire_asn ex_set12 = 65001"
    by (simp add: wire_asn_def ex_set12_eq ex_waiting_def ex_connected_def ex_session_def)
  show ?thesis
    unfolding sendUpdates_def Let_def a ex_fail_first by simp
qed

lemma ex_aborted_eq: "ex_aborted = ex_both\<lparr>conn := None\<rparr>"
  unfolding ex_aborted_def ex_fail_diff by simp

section \<open>The claims\<close>

subsection \<open>C1: which entries of the pending set are announced\<close>

text \<open>
  Claim C1, as amended. In a diff pass that runs to its end, on a session with a
  connection \<open>c\<close> and a pending set \<open>n\<close> whose keys \<^verbatim>\<open>range\<close> visits in the order
  \<open>ks_new\<close>, the UPDATEs written are, in that order, those of the keys \<open>k\<close> of \<open>n\<close> for
  which \<open>peer_has s k (n k)\<close> fails: exactly one for each such entry, and none for an
  entry for which it holds. \<open>peer_has\<close> holds
  when \<open>advertised\<close> has an entry under \<open>k\<close> whose next hop is \<^verbatim>\<open>Equal\<close> to the new one
  and whose \<^verbatim>\<open>Communities\<close> slice is the same slice value: both nil, or both non-nil
  with the same elements. In particular an entry that differs from the advertised one
  in \<^verbatim>\<open>LocalPref\<close> only is not announced again.
\<close>

theorem C1_diff_updates:
  assumes "conn s = Some c" and "new s = Some n"
    and "distinct ks_new" and "set ks_new = dom n"
    and "fst (sendUpdates_diff a ks_new ks_adv w s) = None"
  shows "filter (\<lambda>cm. is_UPDATE (snd cm))
           (emitted w (fst (snd (sendUpdates_diff a ks_new ks_adv w s)))) =
         map (\<lambda>k. (c, UPDATE a (the (n k)))) (filter (\<lambda>k. \<not> peer_has s k (the (n k))) ks_new) \<and>
         (\<forall>k adv. n k = Some adv \<longrightarrow>
            count_list (filter (\<lambda>k. \<not> peer_has s k (the (n k))) ks_new) k =
              (if peer_has s k adv then 0 else 1)) \<and>
         (\<forall>k adv lp. n k = Some adv \<and> advertised s k = Some (adv\<lparr>LocalPref := lp\<rparr>) \<longrightarrow>
            count_list (filter (\<lambda>k. \<not> peer_has s k (the (n k))) ks_new) k = 0)"
proof -
  from assms(4) have "filter (\<lambda>k. n k \<noteq> None \<and> \<not> peer_has s k (the (n k))) ks_new =
                      filter (\<lambda>k. \<not> peer_has s k (the (n k))) ks_new"
    by (intro filter_cong) auto
  with diff_pass_emitted(1) [OF assms(1,2,5)]
  have "filter (\<lambda>cm. is_UPDATE (snd cm))
           (emitted w (fst (snd (sendUpdates_diff a ks_new ks_adv w s)))) =
         map (\<lambda>k. (c, UPDATE a (the (n k)))) (filter (\<lambda>k. \<not> peer_has s k (the (n k))) ks_new)"
    by (simp add: is_UPDATE_def)
  moreover have count: "count_list (filter (\<lambda>k. \<not> peer_has s k (the (n k))) ks_new) k =
              (if peer_has s k adv then 0 else 1)" if "n k = Some adv" for k adv
  proof -
    from that assms(4) have "k \<in> set ks_new" by auto
    with that assms(3) show ?thesis
      by (simp add: count_list_distinct)
  qed
  moreover have "peer_has s k adv" if "advertised s k = Some (adv\<lparr>LocalPref := lp\<rparr>)" for k adv lp
    using that by (simp add: peer_has_def)
  with count have "count_list (filter (\<lambda>k. \<not> peer_has s k (the (n k))) ks_new) k = 0"
    if "n k = Some adv" "advertised s k = Some (adv\<lparr>LocalPref := lp\<rparr>)" for k adv lp
    using that by simp
  ultimately show ?thesis by blast
qed

text \<open>
  An instance: \<open>advertised\<close> holds 10.1.0.0/24, the pending set holds 10.1.0.0/24
  unchanged and 10.2.0.0/24; the pass writes a single UPDATE, for 10.2.0.0/24.
\<close>

theorem C1_diff_updates_witness:
  "conn ex_set12 = Some 1 \<and>
   new ex_set12 = Some [''10.1.0.0/24'' \<mapsto> ex_adv1, ''10.2.0.0/24'' \<mapsto> ex_adv2] \<and>
   advertised ex_set12 ''10.1.0.0/24'' = Some (ex_adv1\<lparr>LocalPref := 100\<rparr>) \<and>
   fst (sendUpdates_diff 65001 [''10.1.0.0/24'', ''10.2.0.0/24''] [''10.1.0.0/24''] ex_world1 ex_set12) = None \<and>
   filter (\<lambda>cm. is_UPDATE (snd cm))
     (emitted ex_world1 (fst (snd (sendUpdates_diff 65001 [''10.1.0.0/24'', ''10.2.0.0/24'']
        [''10.1.0.0/24''] ex_world1 ex_set12)))) = [(1, UPDATE 65001 ex_adv2)]"
proof -
  let ?n = "[''10.1.0.0/24'' \<mapsto> ex_adv1, ''10.2.0.0/24'' \<mapsto> ex_adv2]"
  have c: "conn ex_set12 = Some 1"
    by (simp add: ex_set12_eq ex_waiting_def ex_connected_def)
  have n: "new ex_set12 = Some ?n"
    by (simp add: ex_set12_eq)
  have a: "advertised ex_set12 ''10.1.0.0/24'' = Some (ex_adv1\<lparr>LocalPref := 100\<rparr>)"
    by (simp add: ex_set12_eq ex_waiting_def ex_adv1_def)
  have d: "distinct [''10.1.0.0/24'', ''10.2.0.0/24'']"
    by simp
  have k: "set [''10.1.0.0/24'', ''10.2.0.0/24''] = dom ?n"
    by auto
  have f: "fst (sendUpdates_diff 65001 [''10.1.0.0/24'', ''10.2.0.0/24''] [''10.1.0.0/24'']
             ex_world1 ex_set12) = None"
    by (simp add: ex_diff12)
  have p1: "peer_has ex_set12 ''10.1.0.0/24'' ex_adv1"
    by (simp add: peer_has_def ex_set12_eq ex_waiting_def)
  have p2: "\<not> peer_has ex_set12 ''10.2.0.0/24'' ex_adv2"
    by (simp add: peer_has_def ex_set12_eq ex_waiting_def)
  from C1_diff_updates [OF c n d k f] c n a f p1 p2 show ?thesis
    by simp
qed

text \<open>
  The claim as it was stated asks for element-wise equal community sequences only. That
  fails when one slice is nil and the other is empty and non-nil: the two sequences have
  the same (no) elements, yet \<^verbatim>\<open>reflect.DeepEqual\<close> is false and the entry is announced
  again. Here 10.2.0.0/24 is advertised with nil communities and then set with an empty
  slice, once on the session just before the diff pass and once as a whole run of the
  writer from the connected session.
\<close>

theorem C1_counterexample:
  "advertised ex_nil_set ''10.2.0.0/24'' = Some ex_adv2_nil \<and>
   new ex_nil_set = Some [''10.2.0.0/24'' \<mapsto> ex_adv2] \<and>
   conn ex_nil_set = Some 1 \<and>
   NextHop ex_adv2_nil = NextHop ex_adv2 \<and>
   list_all2 (=) (slice_elems (Communities ex_adv2_nil)) (slice_elems (Communities ex_adv2)) \<and>
   emitted ex_world1
     (fst (snd (sendUpdates_diff 65001 [''10.2.0.0/24''] [''10.2.0.0/24''] ex_world1 ex_nil_set))) =
     [(1, UPDATE 65001 ex_adv2)] \<and>
   emitted ex_world1
     (fst (snd (sendUpdates [''10.2.0.0/24'']
        [\<lparr>during_wait = [EvSet [ex_adv2]], order_new = [], order_adv = []\<rparr>,
         \<lparr>during_wait = [], order_new = [''10.2.0.0/24''], order_adv = [''10.2.0.0/24'']\<rparr>]
        ex_world1 ex_nil_connected))) =
     [(1, UPDATE 65001 ex_adv2_nil), (1, UPDATE 65001 ex_adv2)]"
  by (simp add: ex_nil_diff ex_nil_run emitted_def)
     (simp add: ex_nil_set_eq ex_waiting_def ex_connected_def ex_adv2_nil_def ex_adv2_def
        slice_elems_def)

subsection \<open>C2: the withdrawals of a diff pass\<close>

text \<open>
  Claim C2. In a diff pass that runs to its end, on a session with a connection \<open>c\<close>
  and a pending set \<open>n\<close>, where \<^verbatim>\<open>range\<close> visits the keys of \<open>advertised\<close> in the order
  \<open>ks_adv\<close>: the withdrawn prefixes are the prefixes of the entries of \<open>advertised\<close>
  whose key is not a key of \<open>n\<close>, one for each such entry; if there is none, no WITHDRAW
  is written, and otherwise exactly one WITHDRAW is written and it carries them all.
\<close>

theorem C2_withdrawals:
  assumes "conn s = Some c" and "new s = Some n"
    and "distinct ks_adv" and "set ks_adv = dom (advertised s)"
    and "fst (sendUpdates_diff a ks_new ks_adv w s) = None"
  shows "\<exists>wdr. set wdr = {Prefix adv |k adv. advertised s k = Some adv \<and> k \<notin> dom n} \<and>
               length wdr = card {k \<in> dom (advertised s). k \<notin> dom n} \<and>
               filter (\<lambda>cm. is_WITHDRAW (snd cm))
                 (emitted w (fst (snd (sendUpdates_diff a ks_new ks_adv w s)))) =
                 (if wdr = [] then [] else [(c, WITHDRAW wdr)])"
proof -
  define gone where "gone = filter (\<lambda>k. advertised s k \<noteq> None \<and> lookup_new s k = None) ks_adv"
  have l: "lookup_new s = n"
    by (rule ext) (simp add: lookup_new_def assms(2))
  have wdr: "wdr_loop ks_adv s [] = map (\<lambda>k. Prefix (the (advertised s k))) gone"
    by (simp add: wdr_loop_eq gone_def)
  have g: "set gone = {k \<in> dom (advertised s). k \<notin> dom n}"
    using assms(4) by (auto simp: gone_def l)
  have "distinct gone"
    using assms(3) by (simp add: gone_def)
  then have "length gone = card {k \<in> dom (advertised s). k \<notin> dom n}"
    using g by (metis distinct_card)
  moreover have "set (wdr_loop ks_adv s []) = {Prefix adv |k adv. advertised s k = Some adv \<and> k \<notin> dom n}"
    unfolding wdr set_map g by force
  moreover from diff_pass_emitted(1) [OF assms(1,2,5)]
  have "filter (\<lambda>cm. is_WITHDRAW (snd cm))
          (emitted w (fst (snd (sendUpdates_diff a ks_new ks_adv w s)))) =
        (if wdr_loop ks_adv s [] = [] then [] else [(c, WITHDRAW (wdr_loop ks_adv s []))])"
    by (simp add: is_WITHDRAW_def)
  ultimately show ?thesis
    by (intro exI [of _ "wdr_loop ks_adv s []"]) (simp add: wdr)
qed

text \<open>
  An instance: both prefixes are advertised and the pending set holds 10.2.0.0/24 only;
  one WITHDRAW is written, carrying 10.1.0.0/24.
\<close>

theorem C2_withdrawals_witness:
  "conn ex_set2 = Some 1 \<and> new ex_set2 = Some [''10.2.0.0/24'' \<mapsto> ex_adv2] \<and>
   fst (sendUpdates_diff 65001 [''10.2.0.0/24''] [''10.1.0.0/24'', ''10.2.0.0/24''] ex_world1 ex_set2) = None \<and>
   (\<exists>wdr. set wdr = {ex_net1} \<and> length wdr = 1 \<and>
      filter (\<lambda>cm. is_WITHDRAW (snd cm))
        (emitted ex_world1 (fst (snd (sendUpdates_diff 65001 [''10.2.0.0/24'']
           [''10.1.0.0/24'', ''10.2.0.0/24''] ex_world1 ex_set2)))) = [(1, WITHDRAW wdr)])"
proof -
  let ?n = "[''10.2.0.0/24'' \<mapsto> ex_adv2]"
  have c: "conn ex_set2 = Some 1"
    by (simp add: ex_set2_eq ex_both_def ex_waiting_def ex_connected_def)
  have n: "new ex_set2 = Some ?n"
    by (simp add: ex_set2_eq)
  have d: "distinct [''10.1.0.0/24'', ''10.2.0.0/24'']"
    by simp
  have k: "set [''10.1.0.0/24'', ''10.2.0.0/24''] = dom (advertised ex_set2)"
    by (auto simp: ex_set2_eq ex_both_def)
  have f: "fst (sendUpdates_diff 65001 [''10.2.0.0/24''] [''10.1.0.0/24'', ''10.2.0.0/24'']
             ex_world1 ex_set2) = None"
    by (simp add: ex_diff2)
  have s1: "{Prefix adv |k adv. advertised ex_set2 k = Some adv \<and> k \<notin> dom ?n} = {ex_net1}"
    by (auto simp: ex_set2_eq ex_both_def ex_adv1_def split: if_splits)
  have s2: "{k \<in> dom (advertised ex_set2). k \<notin> dom ?n} = {''10.1.0.0/24''}"
    by (auto simp: ex_set2_eq ex_both_def split: if_splits)
  from C2_withdrawals [OF c n d k f, unfolded s1 s2] c n f show ?thesis
    by (auto split: if_splits)
qed

subsection \<open>C3: a failed send\<close>

text \<open>
  Claim C3. When a pass of the writer on a session with the connection \<open>c\<close> does not
  run to its end, it has returned the error of a failed send (never the error of a
  closed session); the connection \<open>c\<close> has then been closed and dropped, no pending set
  is left, and \<open>advertised\<close> is the whole pending set there was: the one promoted at the
  start of the first pass, or, in a diff pass, the pending set \<open>n\<close> itself, not the part
  of it that was already sent. Whenever \<^verbatim>\<open>sendUpdates\<close> as a whole returns an error other
  than that of a closed session, the session has no connection and no pending set.
  From a session left like that, with \<open>advertised\<close> equal to \<open>n\<close> and no pending set, a
  successful \<^verbatim>\<open>connect\<close> on a connection \<open>c'\<close> followed by a first pass that runs to its
  end writes one UPDATE to \<open>c'\<close> for every entry of \<open>n\<close>.
\<close>

theorem C3_send_error_aborts:
  "(conn s = Some c \<and> fst (first_updates a ks w (promote s)) \<noteq> None \<longrightarrow>
      (\<exists>k. fst (first_updates a ks w (promote s)) = Some (Return (Some (ErrUpdate k)))) \<and>
      conn (snd (snd (first_updates a ks w (promote s)))) = None \<and>
      c \<in> set (closedc (fst (snd (first_updates a ks w (promote s))))) \<and>
      new (snd (snd (first_updates a ks w (promote s)))) = None \<and>
      advertised (snd (snd (first_updates a ks w (promote s)))) =
        (case new s of Some n \<Rightarrow> n | None \<Rightarrow> advertised s)) \<and>
   (conn s = Some c \<and> new s = Some n \<and> fst (sendUpdates_diff a kn ka w s) \<noteq> None \<longrightarrow>
      (\<exists>e. fst (sendUpdates_diff a kn ka w s) = Some (Return (Some e)) \<and> e \<noteq> errClosed) \<and>
      conn (snd (snd (sendUpdates_diff a kn ka w s))) = None \<and>
      c \<in> set (closedc (fst (snd (sendUpdates_diff a kn ka w s)))) \<and>
      new (snd (snd (sendUpdates_diff a kn ka w s))) = None \<and>
      advertised (snd (snd (sendUpdates_diff a kn ka w s))) = n) \<and>
   (fst (sendUpdates ks ts w s) = Return (Some e) \<and> e \<noteq> errClosed \<longrightarrow>
      conn (snd (snd (sendUpdates ks ts w s))) = None \<and>
      new (snd (snd (sendUpdates ks ts w s))) = None) \<and>
   (advertised s1 = n \<and> new s1 = None \<and>
    fst (connect (Some c') (Some (pa, rh)) w1 s1) = None \<and>
    distinct ks' \<and> set ks' = dom n \<and>
    fst (first_updates a ks' w2 (promote (snd (snd (connect (Some c') (Some (pa, rh)) w1 s1))))) = None \<longrightarrow>
      emitted w2 (fst (snd (first_updates a ks' w2
        (promote (snd (snd (connect (Some c') (Some (pa, rh)) w1 s1))))))) =
      map (\<lambda>k. (c', UPDATE a (the (n k)))) ks')"
proof (intro conjI impI)
  assume h: "conn s = Some c \<and> fst (first_updates a ks w (promote s)) \<noteq> None"
  then obtain r w' s' where f: "first_updates a ks w (promote s) = (Some r, w', s')"
    by (cases "first_updates a ks w (promote s)") auto
  from h have "conn (promote s) = Some c" by simp
  note r = first_updates_Some [OF this f]
  from r show "\<exists>k. fst (first_updates a ks w (promote s)) = Some (Return (Some (ErrUpdate k)))"
    by (simp add: f)
  from r show "conn (snd (snd (first_updates a ks w (promote s)))) = None"
    by (simp add: f)
  from r show "c \<in> set (closedc (fst (snd (first_updates a ks w (promote s)))))"
    by (simp add: f)
  from r show "new (snd (snd (first_updates a ks w (promote s)))) = None"
    by (simp add: f)
  from r show "advertised (snd (snd (first_updates a ks w (promote s)))) =
        (case new s of Some n \<Rightarrow> n | None \<Rightarrow> advertised s)"
    by (simp add: f promote_advertised)
next
  assume h: "conn s = Some c \<and> new s = Some n \<and> fst (sendUpdates_diff a kn ka w s) \<noteq> None"
  then obtain r w' s' where d: "sendUpdates_diff a kn ka w s = (Some r, w', s')"
    by (cases "sendUpdates_diff a kn ka w s") auto
  from h have c: "conn s = Some c" by simp
  note r = sendUpdates_diff_Some [OF c d]
  from r show "\<exists>e. fst (sendUpdates_diff a kn ka w s) = Some (Return (Some e)) \<and> e \<noteq> errClosed"
    by (simp add: d)
  from r show "conn (snd (snd (sendUpdates_diff a kn ka w s))) = None"
    by (simp add: d)
  from r show "c \<in> set (closedc (fst (snd (sendUpdates_diff a kn ka w s))))"
    by (simp add: d)
  from r show "new (snd (snd (sendUpdates_diff a kn ka w s))) = None"
    by (simp add: d)
  from r h show "advertised (snd (snd (sendUpdates_diff a kn ka w s))) = n"
    by (simp add: d)
next
  assume h: "fst (sendUpdates ks ts w s) = Return (Some e) \<and> e \<noteq> errClosed"
  then obtain w' s' where u: "sendUpdates ks ts w s = (Return (Some e), w', s')"
    by (cases "sendUpdates ks ts w s") auto
  from sendUpdates_send_error [OF u] h
  show "conn (snd (snd (sendUpdates ks ts w s))) = None"
    and "new (snd (snd (sendUpdates ks ts w s))) = None"
    by (simp_all add: u)
next
  assume "advertised s1 = n \<and> new s1 = None \<and>
    fst (connect (Some c') (Some (pa, rh)) w1 s1) = None \<and>
    distinct ks' \<and> set ks' = dom n \<and>
    fst (first_updates a ks' w2 (promote (snd (snd (connect (Some c') (Some (pa, rh)) w1 s1))))) = None"
  then show "emitted w2 (fst (snd (first_updates a ks' w2
        (promote (snd (snd (connect (Some c') (Some (pa, rh)) w1 s1))))))) =
      map (\<lambda>k. (c', UPDATE a (the (n k)))) ks'"
    by (intro resync_after_connect) simp_all
qed

text \<open>
  An instance: the first write fails. The first pass, the diff pass and the whole
  writer each end with the connection \<open>1\<close> closed and dropped, and \<open>advertised\<close> holding
  both pending prefixes; on the next connection \<open>2\<close> both are announced.
\<close>

theorem C3_send_error_aborts_witness:
  "conn ex_set12 = Some 1 \<and>
   new ex_set12 = Some [''10.1.0.0/24'' \<mapsto> ex_adv1, ''10.2.0.0/24'' \<mapsto> ex_adv2] \<and>
   fst (first_updates 65001 [''10.1.0.0/24'', ''10.2.0.0/24''] ex_world_fail (promote ex_set12)) \<noteq> None \<and>
   fst (sendUpdates_diff 65001 [''10.1.0.0/24'', ''10.2.0.0/24''] [''10.1.0.0/24''] ex_world_fail ex_set12) \<noteq> None \<and>
   fst (sendUpdates [''10.1.0.0/24'', ''10.2.0.0/24''] [] ex_world_fail ex_set12) =
     Return (Some (ErrUpdate ''10.1.0.0/24'')) \<and>
   conn (snd (snd (sendUpdates_diff 65001 [''10.1.0.0/24'', ''10.2.0.0/24''] [''10.1.0.0/24''] ex_world_fail ex_set12))) = None \<and>
   1 \<in> set (closedc (fst (snd (sendUpdates_diff 65001 [''10.1.0.0/24'', ''10.2.0.0/24''] [''10.1.0.0/24''] ex_world_fail ex_set12)))) \<and>
   new (snd (snd (sendUpdates_diff 65001 [''10.1.0.0/24'', ''10.2.0.0/24''] [''10.1.0.0/24''] ex_world_fail ex_set12))) = None \<and>
   advertised (snd (snd (sendUpdates_diff 65001 [''10.1.0.0/24'', ''10.2.0.0/24''] [''10.1.0.0/24''] ex_world_fail ex_set12))) =
     [''10.1.0.0/24'' \<mapsto> ex_adv1, ''10.2.0.0/24'' \<mapsto> ex_adv2] \<and>
   conn (snd (snd (first_updates 65001 [''10.1.0.0/24'', ''10.2.0.0/24''] ex_world_fail (promote ex_set12)))) = None \<and>
   conn (snd (snd (sendUpdates [''10.1.0.0/24'', ''10.2.0.0/24''] [] ex_world_fail ex_set12))) = None \<and>
   fst (connect (Some 2) (Some (65002, 30000000000)) ex_world ex_aborted) = None \<and>
   emitted ex_world (fst (snd (first_updates 65001 [''10.2.0.0/24'', ''10.1.0.0/24''] ex_world
     (promote (snd (snd (connect (Some 2) (Some (65002, 30000000000)) ex_world ex_aborted))))))) =
     [(2, UPDATE 65001 ex_adv2), (2, UPDATE 65001 ex_adv1)]"
proof -
  let ?n = "[''10.1.0.0/24'' \<mapsto> ex_adv1, ''10.2.0.0/24'' \<mapsto> ex_adv2]"
  have c: "conn ex_set12 = Some 1"
    by (simp add: ex_set12_eq ex_waiting_def ex_connected_def)
  have n: "new ex_set12 = Some ?n"
    by (simp add: ex_set12_eq)
  have f: "fst (first_updates 65001 [''10.1.0.0/24'', ''10.2.0.0/24''] ex_world_fail (promote ex_set12)) \<noteq> None"
    unfolding ex_fail_first by simp
  have d: "fst (sendUpdates_diff 65001 [''10.1.0.0/24'', ''10.2.0.0/24''] [''10.1.0.0/24''] ex_world_fail ex_set12) \<noteq> None"
    unfolding ex_fail_diff by simp
  have r: "fst (sendUpdates [''10.1.0.0/24'', ''10.2.0.0/24''] [] ex_world_fail ex_set12) =
             Return (Some (ErrUpdate ''10.1.0.0/24''))"
    unfolding ex_fail_run by simp
  have e: "ErrUpdate ''10.1.0.0/24'' \<noteq> errClosed"
    by simp
  have a: "advertised ex_aborted = ?n" "new ex_aborted = None"
    by (simp_all add: ex_aborted_eq ex_both_def ex_waiting_def ex_connected_def)
  have o: "fst (connect (Some 2) (Some (65002, 30000000000)) ex_world ex_aborted) = None"
    by (simp add: ex_aborted_eq ex_both_def ex_waiting_def ex_connected_def ex_session_def
          connect_def sendOpen_def sendKeepalive_def conn_write_def ex_world_def Let_def)
  have k: "distinct [''10.2.0.0/24'', ''10.1.0.0/24'']" "set [''10.2.0.0/24'', ''10.1.0.0/24''] = dom ?n"
    by auto
  have p: "fst (first_updates 65001 [''10.2.0.0/24'', ''10.1.0.0/24''] ex_world
     (promote (snd (snd (connect (Some 2) (Some (65002, 30000000000)) ex_world ex_aborted))))) = None"
    by (simp add: ex_aborted_eq ex_both_def ex_waiting_def ex_connected_def ex_session_def
          connect_def sendOpen_def sendKeepalive_def conn_write_def ex_world_def Let_def
          promote_def sendUpdate_def)
  from C3_send_error_aborts [where s = ex_set12 and c = 1 and a = 65001
      and ks = "[''10.1.0.0/24'', ''10.2.0.0/24'']" and w = ex_world_fail and n = ?n
      and kn = "[''10.1.0.0/24'', ''10.2.0.0/24'']" and ka = "[''10.1.0.0/24'']" and ts = "[]"
      and e = "ErrUpdate ''10.1.0.0/24''" and ?s1.0 = ex_aborted and c' = 2 and pa = 65002
      and rh = 30000000000 and ?w1.0 = ex_world and ks' = "[''10.2.0.0/24'', ''10.1.0.0/24'']"
      and ?w2.0 = ex_world]
    c n f d r e a o k p
  show ?thesis by simp
qed

subsection \<open>C4: an absent pending set and an empty one\<close>

text \<open>
  Claim C4. With a connection and no pending set the writer waits: as long as nothing
  happens while it waits, it writes nothing, changes nothing and does not return.
  With a connection, an open session and a pending set that is present and empty, one
  turn of the writer, in which the write succeeds, writes a single WITHDRAW carrying
  the prefix of every entry of \<open>advertised\<close> (nothing if there is none), leaves
  \<open>advertised\<close> empty and the pending set absent, keeps the connection, and waits
  again. \<^verbatim>\<open>Set\<close> without arguments succeeds and makes the pending set present and empty.
\<close>

theorem C4_absent_vs_empty:
  "(new s = None \<and> conn s \<noteq> None \<and> (\<forall>t\<in>set ts. during_wait t = []) \<longrightarrow>
      sendUpdates_loop a ts w s = (Blocked, w, s)) \<and>
   (new s = Some Map.empty \<and> conn s = Some c \<and> \<not> closed s \<and>
    distinct ka \<and> set ka = dom (advertised s) \<and> next_write_ok w \<longrightarrow>
      fst (sendUpdates_loop a [\<lparr>during_wait = evs, order_new = kn, order_adv = ka\<rparr>] w s) = Blocked \<and>
      (\<exists>wdr. set wdr = {Prefix adv |k adv. advertised s k = Some adv} \<and>
             emitted w (fst (snd (sendUpdates_loop a [\<lparr>during_wait = evs, order_new = kn, order_adv = ka\<rparr>] w s))) =
               (if wdr = [] then [] else [(c, WITHDRAW wdr)])) \<and>
      advertised (snd (snd (sendUpdates_loop a [\<lparr>during_wait = evs, order_new = kn, order_adv = ka\<rparr>] w s))) = Map.empty \<and>
      new (snd (snd (sendUpdates_loop a [\<lparr>during_wait = evs, order_new = kn, order_adv = ka\<rparr>] w s))) = None \<and>
      conn (snd (snd (sendUpdates_loop a [\<lparr>during_wait = evs, order_new = kn, order_adv = ka\<rparr>] w s))) = Some c) \<and>
   Set [] s = (None, s\<lparr>new := Some Map.empty\<rparr>)"
proof (intro conjI impI)
  assume "new s = None \<and> conn s \<noteq> None \<and> (\<forall>t\<in>set ts. during_wait t = [])"
  then show "sendUpdates_loop a ts w s = (Blocked, w, s)"
    by (simp add: idle_turns_block)
next
  show "Set [] s = (None, s\<lparr>new := Some Map.empty\<rparr>)"
    by (simp add: Set_def)
next
  let ?t = "\<lparr>during_wait = evs, order_new = kn, order_adv = ka\<rparr>"
  assume h: "new s = Some Map.empty \<and> conn s = Some c \<and> \<not> closed s \<and>
    distinct ka \<and> set ka = dom (advertised s) \<and> next_write_ok w"
  then have n: "new s = Some Map.empty" and c: "conn s = Some c" and o: "\<not> closed s"
    and ka: "set ka = dom (advertised s)" and ok: "next_write_ok w"
    by simp_all
  have l: "lookup_new s = Map.empty"
    by (rule ext) (simp add: lookup_new_def n)
  have du: "diff_updates a kn w s = (None, w, s)"
    by (induction kn) (simp_all add: l)
  define wdr where "wdr = wdr_loop ka s []"
  have wdr: "wdr = map (\<lambda>k. Prefix (the (advertised s k))) (filter (\<lambda>k. advertised s k \<noteq> None) ka)"
    by (simp add: wdr_def wdr_loop_eq l)
  have sw: "set wdr = {Prefix adv |k adv. advertised s k = Some adv}"
    unfolding wdr using ka by force
  obtain w2 where d: "sendUpdates_diff a kn ka w s = (None, w2, commit s)"
    and w2: "wire w2 = wire w @ (if wdr = [] then [] else [(c, WITHDRAW wdr)])"
  proof (cases "wdr = []")
    case True
    with du have "sendUpdates_diff a kn ka w s = (None, w, commit s)"
      by (simp add: sendUpdates_diff_def wdr_def)
    with True that show ?thesis by simp
  next
    case False
    from conn_write_ok [OF ok] obtain w2
      where cw: "conn_write (Some c) (WITHDRAW wdr) w = (Sent, w2)"
        and "wire w2 = wire w @ [(c, WITHDRAW wdr)]"
      by blast
    moreover from du False cw have "sendUpdates_diff a kn ka w s = (None, w2, commit s)"
      by (simp add: sendUpdates_diff_def sendWithdraw_def wdr_def [symmetric] c)
    ultimately show ?thesis using False that by simp
  qed
  from d n c o have loop: "sendUpdates_loop a [?t] w s = (Blocked, w2, commit s)"
    by simp
  show "fst (sendUpdates_loop a [?t] w s) = Blocked"
    unfolding loop by simp
  from sw w2 show "\<exists>wdr. set wdr = {Prefix adv |k adv. advertised s k = Some adv} \<and>
             emitted w (fst (snd (sendUpdates_loop a [?t] w s))) =
               (if wdr = [] then [] else [(c, WITHDRAW wdr)])"
    unfolding loop by (intro exI [of _ wdr]) (simp add: emitted_def)
  show "advertised (snd (snd (sendUpdates_loop a [?t] w s))) = Map.empty"
    unfolding loop by (simp add: commit_def n)
  show "new (snd (snd (sendUpdates_loop a [?t] w s))) = None"
    unfolding loop by (simp add: commit_def)
  show "conn (snd (snd (sendUpdates_loop a [?t] w s))) = Some c"
    unfolding loop by (simp add: commit_def c)
qed

text \<open>
  An instance: the writer waits on the session that advertises 10.1.0.0/24; after
  \<^verbatim>\<open>Set()\<close> its next turn withdraws 10.1.0.0/24.
\<close>

theorem C4_absent_vs_empty_witness:
  "new ex_waiting = None \<and> conn ex_waiting \<noteq> None \<and>
   sendUpdates_loop 65001 [ex_idle, ex_idle] ex_world1 ex_waiting = (Blocked, ex_world1, ex_waiting) \<and>
   fst (Set [] ex_waiting) = None \<and>
   new (snd (Set [] ex_waiting)) = Some Map.empty \<and>
   conn (snd (Set [] ex_waiting)) = Some 1 \<and> \<not> closed (snd (Set [] ex_waiting)) \<and>
   next_write_ok ex_world1 \<and>
   emitted ex_world1 (fst (snd (sendUpdates_loop 65001
      [\<lparr>during_wait = [], order_new = [], order_adv = [''10.1.0.0/24'']\<rparr>]
      ex_world1 (snd (Set [] ex_waiting))))) = [(1, WITHDRAW [ex_net1])] \<and>
   advertised (snd (snd (sendUpdates_loop 65001
      [\<lparr>during_wait = [], order_new = [], order_adv = [''10.1.0.0/24'']\<rparr>]
      ex_world1 (snd (Set [] ex_waiting))))) = Map.empty"
proof -
  let ?s = "snd (Set [] ex_waiting)"
  have a1: "new ex_waiting = None" "conn ex_waiting \<noteq> None"
    by (simp_all add: ex_waiting_def ex_connected_def)
  have a2: "\<forall>t\<in>set [ex_idle, ex_idle]. during_wait t = []"
    by (simp add: ex_idle_def)
  have s: "Set [] ex_waiting = (None, ex_waiting\<lparr>new := Some Map.empty\<rparr>)"
    by (simp add: Set_def)
  have b: "new ?s = Some Map.empty" "conn ?s = Some 1" "\<not> closed ?s"
    unfolding s by (simp_all add: ex_waiting_def ex_connected_def ex_session_def)
  have o: "distinct [''10.1.0.0/24'']" "set [''10.1.0.0/24''] = dom (advertised ?s)"
    unfolding s by (simp_all add: ex_waiting_def)
  have w: "next_write_ok ex_world1"
    by (simp add: next_write_ok_def ex_world1_def)
  have p: "{Prefix adv |k adv. advertised ?s k = Some adv} = {ex_net1}"
    unfolding s by (auto simp: ex_waiting_def ex_fields split: if_splits)
  from C4_absent_vs_empty [where s = ex_waiting and ts = "[ex_idle, ex_idle]" and a = 65001
      and w = ex_world1] a1 a2
  have 1: "sendUpdates_loop 65001 [ex_idle, ex_idle] ex_world1 ex_waiting = (Blocked, ex_world1, ex_waiting)"
    by simp
  from C4_absent_vs_empty [where s = ?s and c = 1 and ka = "[''10.1.0.0/24'']" and w = ex_world1
      and a = 65001 and evs = "[]" and kn = "[]", unfolded p] b o w
  have 2: "(\<exists>wdr. set wdr = {ex_net1} \<and>
             emitted ex_world1 (fst (snd (sendUpdates_loop 65001
               [\<lparr>during_wait = [], order_new = [], order_adv = [''10.1.0.0/24'']\<rparr>] ex_world1 ?s))) =
               (if wdr = [] then [] else [(1, WITHDRAW wdr)]))"
    and 3: "advertised (snd (snd (sendUpdates_loop 65001
      [\<lparr>during_wait = [], order_new = [], order_adv = [''10.1.0.0/24'']\<rparr>] ex_world1 ?s))) = Map.empty"
    by simp_all
  have 4: "emitted ex_world1 (fst (snd (sendUpdates_loop 65001
      [\<lparr>during_wait = [], order_new = [], order_adv = [''10.1.0.0/24'']\<rparr>] ex_world1 ?s))) =
      [(1, WITHDRAW [ex_net1])]"
    unfolding s
    by (simp add: ex_waiting_def ex_connected_def ex_session_def sendUpdates_diff_def
          lookup_new_def sendWithdraw_def conn_write_def ex_world1_def emitted_def ex_fields
          commit_def)
  from a1 1 s b w 3 4 show ?thesis by simp
qed

subsection \<open>C5: Set replaces the pending set\<close>

text \<open>
  Claim C5. After a successful \<^verbatim>\<open>Set(A)\<close> followed by a successful \<^verbatim>\<open>Set(B)\<close> the
  session is the one \<^verbatim>\<open>Set(B)\<close> alone would have left: its pending set is
  \<open>desired_map B\<close>, the map from prefix string to advertisement built from \<open>B\<close>. A
  writer that waits while both calls happen goes on exactly as if only \<^verbatim>\<open>Set(B)\<close> had
  happened, and every UPDATE of the next diff pass is for an advertisement of \<open>B\<close>.
\<close>

theorem C5_Set_supersedes:
  assumes "fst (Set A s) = None" and "fst (Set B (snd (Set A s))) = None"
  shows "snd (Set B (snd (Set A s))) = s\<lparr>new := Some (desired_map B)\<rparr> \<and>
         snd (Set B (snd (Set A s))) = snd (Set B s) \<and>
         sendUpdates_loop a (\<lparr>during_wait = [EvSet A, EvSet B], order_new = kn, order_adv = ka\<rparr> # ts) w s =
           sendUpdates_loop a (\<lparr>during_wait = [EvSet B], order_new = kn, order_adv = ka\<rparr> # ts) w s \<and>
         (\<forall>cm\<in>set (emitted w (fst (snd (sendUpdates_diff a kn ka w (snd (Set B (snd (Set A s)))))))).
            \<forall>a' adv. snd cm = UPDATE a' adv \<longrightarrow> adv \<in> set B)"
proof -
  from assms(1) have A: "Set A s = (None, s\<lparr>new := Some (desired_map A)\<rparr>)"
    by (simp add: Set_ok_valid Set_valid)
  from assms(2) have vB: "\<forall>adv\<in>set B. \<not> invalid_adv adv"
    by (rule Set_ok_valid)
  then have B: "\<And>s0. Set B s0 = (None, s0\<lparr>new := Some (desired_map B)\<rparr>)"
    by (rule Set_valid)
  define s2 where "s2 = s\<lparr>new := Some (desired_map B)\<rparr>"
  have s2: "snd (Set B (snd (Set A s))) = s2" "snd (Set B s) = s2"
    by (simp_all add: A B s2_def)
  have ev: "apply_events [EvSet A, EvSet B] (w, s) = apply_events [EvSet B] (w, s)"
    by (simp add: apply_events_def A B)
  obtain r w' s' where d: "sendUpdates_diff a kn ka w s2 = (r, w', s')"
    by (cases "sendUpdates_diff a kn ka w s2")
  have "grows (announces_only (set B)) w w'"
  proof (rule sendUpdates_diff_grows [OF _ _ d])
    fix k adv
    assume "lookup_new s2 k = Some adv"
    then have "desired_map B k = Some adv"
      by (simp add: lookup_new_def s2_def)
    then show "announces_only (set B) (UPDATE a adv)"
      by (auto simp: announces_only_def dest: ran_desired_map)
  qed (simp add: announces_only_def)
  from grows_emitted [OF this]
  have "\<forall>cm\<in>set (emitted w w'). \<forall>a' adv. snd cm = UPDATE a' adv \<longrightarrow> adv \<in> set B"
    by (auto simp: list_all_iff announces_only_def)
  with s2 ev d show ?thesis
    by (simp add: s2_def)
qed

text \<open>
  An instance: a changed 10.1.0.0/24 is set and then superseded by 10.2.0.0/24 alone;
  the next diff pass writes no UPDATE for the superseded advertisement.
\<close>

theorem C5_Set_supersedes_witness:
  "fst (Set [ex_adv1b] ex_waiting) = None \<and>
   fst (Set [ex_adv2] (snd (Set [ex_adv1b] ex_waiting))) = None \<and>
   new (snd (Set [ex_adv2] (snd (Set [ex_adv1b] ex_waiting)))) = Some [''10.2.0.0/24'' \<mapsto> ex_adv2] \<and>
   ex_adv1b \<notin> set [ex_adv2] \<and>
   (1, UPDATE 65001 ex_adv1b) \<notin>
     set (emitted ex_world1 (fst (snd (sendUpdates_diff 65001 [''10.2.0.0/24''] [''10.1.0.0/24'']
            ex_world1 (snd (Set [ex_adv2] (snd (Set [ex_adv1b] ex_waiting))))))))"
proof -
  have h1: "fst (Set [ex_adv1b] ex_waiting) = None"
    by (simp add: Set_valid ex_valid1b)
  have h2: "fst (Set [ex_adv2] (snd (Set [ex_adv1b] ex_waiting))) = None"
    by (simp add: Set_valid ex_valid2)
  from C5_Set_supersedes [OF h1 h2, of 65001 "[''10.2.0.0/24'']" "[''10.1.0.0/24'']" "[]" ex_world1]
    h1 h2 ex_adv_distinct show ?thesis
    by (auto simp: ex_desired2)
qed

subsection \<open>C6: the hold time and the keepalive period\<close>

text \<open>
  Claim C6, as amended. After a successful \<^verbatim>\<open>connect\<close> the negotiated hold time is the
  minimum of the configured one and the one the peer asked for, and the hold-time slot
  is full. When the ticker takes the value: if it is zero there is no ticker afterwards
  and ticks, which then cannot fire, write nothing; if it is at least 3 ns the ticker
  runs with the period \<^verbatim>\<open>ht / 3\<close>, the hold time divided by three in whole nanoseconds,
  which is exactly one third when the hold time is a multiple of 3 ns.
\<close>

theorem C6_hold_time:
  assumes "fst (connect dial (Some (pa, requestedHold)) w s) = None"
    and "s' = snd (snd (connect dial (Some (pa, requestedHold)) w s))"
  shows "actualHoldTime s' = min (holdTime s) requestedHold \<and> newHoldTime s' \<and>
         (actualHoldTime s' = 0 \<longrightarrow>
            sendKeepalives_step RecvHoldTime (Running t, w', s') =
              (Running NoTicker, w', s'\<lparr>newHoldTime := False\<rparr>) \<and>
            fold sendKeepalives_step (replicate n TickFires)
              (Running NoTicker, w', s'\<lparr>newHoldTime := False\<rparr>) =
              (Running NoTicker, w', s'\<lparr>newHoldTime := False\<rparr>)) \<and>
         (3 \<le> actualHoldTime s' \<longrightarrow>
            sendKeepalives_step RecvHoldTime (Running t, w', s') =
              (Running (Ticker (actualHoldTime s' div 3)), w', s'\<lparr>newHoldTime := False\<rparr>)) \<and>
         (3 \<le> actualHoldTime s' \<and> 3 dvd actualHoldTime s' \<longrightarrow>
            (\<exists>p. fst (sendKeepalives_step RecvHoldTime (Running t, w', s')) = Running (Ticker p) \<and>
                 3 * p = actualHoldTime s'))"
proof -
  from connect_ok [OF assms(1)] assms(2)
  have a: "actualHoldTime s' = min (holdTime s) requestedHold" and n: "newHoldTime s'"
    by auto
  have idle: "fold sendKeepalives_step (replicate n TickFires) (Running NoTicker, w0, s0) =
                (Running NoTicker, w0, s0)" for w0 s0
    by (induction n) simp_all
  have pos: "sendKeepalives_step RecvHoldTime (Running t, w', s') =
               (Running (Ticker (actualHoldTime s' div 3)), w', s'\<lparr>newHoldTime := False\<rparr>)"
    if "3 \<le> actualHoldTime s'"
    using that n by (simp add: on_newHoldTime_def NewTicker_def signed_divide_int_def Let_def)
  have zero: "sendKeepalives_step RecvHoldTime (Running t, w', s') =
               (Running NoTicker, w', s'\<lparr>newHoldTime := False\<rparr>)"
    if "actualHoldTime s' = 0"
    using that n by (simp add: on_newHoldTime_def)
  from a n idle pos zero show ?thesis
    by auto
qed

text \<open>
  Instances: a configured hold time of 90 s and a requested one of 30 s give a period of
  10 s; a requested hold time of 0 leaves the ticker off.
\<close>

theorem C6_hold_time_witness:
  "fst (connect (Some 1) (Some (65002, 30000000000)) ex_world ex_session) = None \<and>
   holdTime ex_session = 90000000000 \<and>
   actualHoldTime (snd (snd (connect (Some 1) (Some (65002, 30000000000)) ex_world ex_session))) =
     30000000000 \<and>
   fst (sendKeepalives_step RecvHoldTime (Running NoTicker, ex_world1,
          snd (snd (connect (Some 1) (Some (65002, 30000000000)) ex_world ex_session)))) =
     Running (Ticker 10000000000) \<and>
   fst (connect (Some 1) (Some (65002, 0)) ex_world ex_session) = None \<and>
   actualHoldTime ex_hold0 = 0 \<and>
   fst (sendKeepalives_step RecvHoldTime (Running (Ticker 10000000000), ex_world1, ex_hold0)) =
     Running NoTicker \<and>
   fst (snd (fold sendKeepalives_step (replicate 3 TickFires)
          (Running NoTicker, ex_world1, ex_hold0\<lparr>newHoldTime := False\<rparr>))) = ex_world1"
proof -
  let ?s = "snd (snd (connect (Some 1) (Some (65002, 30000000000)) ex_world ex_session))"
  have h: "holdTime ex_session = 90000000000"
    by (simp add: ex_session_def)
  have c1: "fst (connect (Some 1) (Some (65002, 30000000000)) ex_world ex_session) = None"
    using ex_connect_ok [of 30000000000 90000000000] by (simp add: ex_session_holdTime)
  have c0: "fst (connect (Some 1) (Some (65002, 0)) ex_world ex_session) = None"
    using ex_connect_ok [of 0 90000000000] by (simp add: ex_session_holdTime)
  note t1 = C6_hold_time [OF c1 refl, where t = NoTicker and w' = ex_world1 and n = 0]
  note t0 = C6_hold_time [OF c0 ex_hold0_def, where t = "Ticker 10000000000" and w' = ex_world1
      and n = 3]
  from t1 h have a1: "actualHoldTime ?s = 30000000000"
    by (simp del: sendKeepalives_step.simps)
  from t0 h have a0: "actualHoldTime ex_hold0 = 0"
    by (simp del: sendKeepalives_step.simps)
  from t1 a1 have k1: "fst (sendKeepalives_step RecvHoldTime (Running NoTicker, ex_world1, ?s)) =
     Running (Ticker 10000000000)"
    by (simp del: sendKeepalives_step.simps)
  from t0 a0 have k0: "fst (sendKeepalives_step RecvHoldTime
          (Running (Ticker 10000000000), ex_world1, ex_hold0)) = Running NoTicker"
    and i0: "fst (snd (fold sendKeepalives_step (replicate 3 TickFires)
          (Running NoTicker, ex_world1, ex_hold0\<lparr>newHoldTime := False\<rparr>))) = ex_world1"
    by (simp_all del: sendKeepalives_step.simps replicate.simps fold_simps)
  from c1 h a1 k1 c0 a0 k0 i0 show ?thesis
    by (simp del: sendKeepalives_step.simps replicate.simps fold_simps)
qed

text \<open>
  The claim as it was stated asks for a period of exactly one third of any negotiated
  hold time. With 90 s configured and 10 s requested, the hold time is 10 s and the
  period 3333333333 ns, which is not a third of it. With a configured hold time of 1 ns
  the period would be 0 and \<^verbatim>\<open>time.NewTicker\<close> panics.
\<close>

theorem C6_counterexample:
  "fst (connect (Some 1) (Some (65002, 10000000000)) ex_world ex_session) = None \<and>
   holdTime ex_session = 90000000000 \<and>
   actualHoldTime ex_hold10 = 10000000000 \<and>
   fst (sendKeepalives_step RecvHoldTime (Running NoTicker, ex_world1, ex_hold10)) =
     Running (Ticker 3333333333) \<and>
   3 * 3333333333 \<noteq> actualHoldTime ex_hold10 \<and>
   fst (connect (Some 1) (Some (65002, 30000000000)) ex_world (ex_session\<lparr>holdTime := 1\<rparr>)) = None \<and>
   actualHoldTime ex_hold1ns = 1 \<and>
   fst (sendKeepalives_step RecvHoldTime (Running NoTicker, ex_world1, ex_hold1ns)) = Panicked"
  by (simp add: ex_hold10_def ex_hold1ns_def connect_def sendOpen_def sendKeepalive_def
        conn_write_def ex_world_def ex_session_def Let_def on_newHoldTime_def NewTicker_def
        signed_divide_int_def)

subsection \<open>C7: the reader and the identity of its connection\<close>

text \<open>
  Claim C7. When the reader bound to the connection \<open>c\<close> ends, whatever bytes it read,
  the session is aborted if and only if \<open>c\<close> is the session's current connection.
  Otherwise only \<open>c\<close> is closed and the session, with its current connection, is left
  as it was.
\<close>

theorem C7_reader_identity_check:
  "(snd (consumeBGP c bs w s) = abort w s) = (conn s = Some c) \<and>
   (conn s \<noteq> Some c \<longrightarrow> snd (consumeBGP c bs w s) = (w\<lparr>closedc := closedc w @ [c]\<rparr>, s))"
proof -
  have eq: "snd (consumeBGP c bs w s) = consumeBGP_deferred c w s"
    by (simp add: consumeBGP_def split: prod.splits)
  have ne: "abort w s \<noteq> (w\<lparr>closedc := closedc w @ [c]\<rparr>, s)" if "conn s \<noteq> Some c"
  proof
    assume "abort w s = (w\<lparr>closedc := closedc w @ [c]\<rparr>, s)"
    then have "closedc (fst (abort w s)) = closedc w @ [c]" by simp
    with that show False by (cases "conn s") (simp_all add: abort_closedc)
  qed
  from eq ne show ?thesis
    by (auto simp: consumeBGP_deferred_def conn_Close_def)
qed

text \<open>
  Instances: a reader of connection \<open>1\<close> ends while the session uses connection \<open>2\<close>,
  and while the session uses connection \<open>1\<close>.
\<close>

theorem C7_reader_identity_check_witness:
  "conn (ex_connected\<lparr>conn := Some 2\<rparr>) \<noteq> Some 1 \<and>
   snd (consumeBGP 1 [] ex_world1 (ex_connected\<lparr>conn := Some 2\<rparr>)) =
     (ex_world1\<lparr>closedc := [1]\<rparr>, ex_connected\<lparr>conn := Some 2\<rparr>) \<and>
   snd (consumeBGP 1 [] ex_world1 ex_connected) = abort ex_world1 ex_connected \<and>
   conn (snd (abort ex_world1 ex_connected)) = None"
  using C7_reader_identity_check [of 1 "[]" ex_world1 "ex_connected\<lparr>conn := Some 2\<rparr>"]
    C7_reader_identity_check [of 1 "[]" ex_world1 ex_connected]
  by (simp add: ex_connected_def ex_world1_def)

subsection \<open>C8: validation in Set\<close>

text \<open>
  Claim C8. \<^verbatim>\<open>Set\<close> returns an error exactly when one of the advertisements has a
  prefix address that is not IPv4, a next hop that is not IPv4, or more than 63
  communities; and when it returns an error the session is unchanged, whatever came
  earlier in the argument list.
\<close>

theorem C8_Set_validation:
  "(fst (Set advs s) \<noteq> None) =
     (\<exists>adv\<in>set advs. \<not> is_IPv4 (IP (Prefix adv)) \<or> \<not> is_IPv4 (NextHop adv) \<or>
                      63 < len (Communities adv)) \<and>
   (fst (Set advs s) \<noteq> None \<longrightarrow> snd (Set advs s) = s)"
proof -
  have "fst (Set advs s) \<noteq> None \<longrightarrow> snd (Set advs s) = s"
    by (cases "Set_loop advs Map.empty") (simp_all add: Set_def)
  with Set_error_iff [of advs s] show ?thesis
    by (simp add: invalid_adv_def)
qed

text \<open>
  An instance: a valid advertisement followed by one with 64 communities; the pending
  set of an earlier \<^verbatim>\<open>Set\<close> stays.
\<close>

theorem C8_Set_validation_witness:
  "fst (Set [ex_adv1, ex_adv64] (snd (Set [ex_adv2] ex_session))) \<noteq> None \<and>
   new (snd (Set [ex_adv1, ex_adv64] (snd (Set [ex_adv2] ex_session)))) =
     new (snd (Set [ex_adv2] ex_session)) \<and>
   new (snd (Set [ex_adv2] ex_session)) \<noteq> None"
  using C8_Set_validation [of "[ex_adv1, ex_adv64]" "snd (Set [ex_adv2] ex_session)"]
  by (simp add: ex_adv64_def ex_adv1_def ex_adv2_def len_def is_IPv4_def Set_def To4_def ex_net2_def)

subsection \<open>C9: the ASN on the wire\<close>

text \<open>
  Claim C9. Whatever happens while \<^verbatim>\<open>sendUpdates\<close> runs, it only appends to the wire,
  and every UPDATE it appends was encoded with the ASN 0 if the local ASN equals the
  peer ASN, and with the local ASN otherwise.
\<close>

theorem C9_wire_asn:
  "wire (fst (snd (sendUpdates ks ts w s))) = wire w @ emitted w (fst (snd (sendUpdates ks ts w s))) \<and>
   (\<forall>cm\<in>set (emitted w (fst (snd (sendUpdates ks ts w s)))).
      \<forall>a adv. snd cm = UPDATE a adv \<longrightarrow> a = (if peerASN s = asn s then 0 else asn s))"
proof -
  obtain r w' s' where run: "sendUpdates ks ts w s = (r, w', s')"
    by (cases "sendUpdates ks ts w s")
  note g = grows_emitted [OF sendUpdates_grows [OF run]]
  from g have "\<forall>cm\<in>set (emitted w w'). \<forall>a adv. snd cm = UPDATE a adv \<longrightarrow> a = wire_asn s"
    by (auto simp: list_all_iff carries_asn_def)
  with g show ?thesis
    by (simp add: run wire_asn_def)
qed

text \<open>An instance: the first pass of a session whose peer has the local ASN.\<close>

theorem C9_wire_asn_witness:
  "peerASN ex_ibgp = asn ex_ibgp \<and> asn ex_ibgp = 65001 \<and>
   (1, UPDATE 0 ex_adv1) \<in>
     set (emitted ex_world1 (fst (snd (sendUpdates [''10.1.0.0/24''] [] ex_world1 ex_ibgp)))) \<and>
   (1, UPDATE 65001 ex_adv1) \<notin>
     set (emitted ex_world1 (fst (snd (sendUpdates [''10.1.0.0/24''] [] ex_world1 ex_ibgp))))"
proof -
  have e: "(1, UPDATE 0 ex_adv1) \<in>
     set (emitted ex_world1 (fst (snd (sendUpdates [''10.1.0.0/24''] [] ex_world1 ex_ibgp))))"
    by (simp add: ex_first_pass_ibgp emitted_def)
  have p: "peerASN ex_ibgp = asn ex_ibgp" "asn ex_ibgp = 65001"
    by (simp_all add: ex_ibgp_def ex_connected_def ex_session_def)
  from C9_wire_asn [of "[''10.1.0.0/24'']" "[]" ex_world1 ex_ibgp] p
  have "(1, UPDATE 65001 ex_adv1) \<notin>
     set (emitted ex_world1 (fst (snd (sendUpdates [''10.1.0.0/24''] [] ex_world1 ex_ibgp))))"
    by fastforce
  with e p show ?thesis
    by simp
qed

subsection \<open>C10: duplicate prefixes in Set\<close>

text \<open>
  Claim C10. When every advertisement is valid, \<^verbatim>\<open>Set\<close> succeeds, and the pending map
  sends the prefix string of an advertisement to that advertisement whenever no later
  argument has the same prefix string: of several advertisements with one prefix string
  the last one is kept. The map has exactly the prefix strings of the arguments as keys.
\<close>

theorem C10_Set_last_duplicate_wins:
  assumes "\<forall>a\<in>set advs. is_IPv4 (IP (Prefix a)) \<and> is_IPv4 (NextHop a) \<and> len (Communities a) \<le> 63"
    and "advs = pre @ adv # post"
    and "\<forall>b\<in>set post. IPNet_String (Prefix b) \<noteq> IPNet_String (Prefix adv)"
  shows "fst (Set advs s) = None \<and>
         (\<exists>m. new (snd (Set advs s)) = Some m \<and>
              m (IPNet_String (Prefix adv)) = Some adv \<and>
              dom m = (\<lambda>a. IPNet_String (Prefix a)) ` set advs)"
proof -
  from assms(1) have "\<forall>a\<in>set advs. \<not> invalid_adv a"
    by (auto simp: invalid_adv_def)
  then have "Set advs s = (None, s\<lparr>new := Some (desired_map advs)\<rparr>)"
    by (rule Set_valid)
  moreover from assms(2,3) have "desired_map advs (IPNet_String (Prefix adv)) = Some adv"
    using desired_map_last [of advs pre adv post] by (simp add: prefix_key_def)
  moreover have "dom (desired_map advs) = (\<lambda>a. IPNet_String (Prefix a)) ` set advs"
    using dom_desired_map [of advs] by (simp add: prefix_key_def [abs_def])
  ultimately show ?thesis by simp
qed

text \<open>
  An instance: two advertisements for 10.1.0.0/24 with different next hops, the second
  of them last in the list.
\<close>

theorem C10_Set_last_duplicate_wins_witness:
  "IPNet_String (Prefix ex_adv1) = IPNet_String (Prefix ex_adv1b) \<and> ex_adv1 \<noteq> ex_adv1b \<and>
   fst (Set [ex_adv1, ex_adv2, ex_adv1b] ex_session) = None \<and>
   (\<exists>m. new (snd (Set [ex_adv1, ex_adv2, ex_adv1b] ex_session)) = Some m \<and>
        m ''10.1.0.0/24'' = Some ex_adv1b)"
proof -
  have v: "\<forall>a\<in>set [ex_adv1, ex_adv2, ex_adv1b].
             is_IPv4 (IP (Prefix a)) \<and> is_IPv4 (NextHop a) \<and> len (Communities a) \<le> 63"
    by (simp add: ex_adv1_def ex_adv2_def ex_adv1b_def ex_net1_def ex_net2_def is_IPv4_def len_def)
  have d: "[ex_adv1, ex_adv2, ex_adv1b] = [ex_adv1, ex_adv2] @ ex_adv1b # []"
    by simp
  have k: "IPNet_String (Prefix ex_adv1b) = ''10.1.0.0/24''" "IPNet_String (Prefix ex_adv1) = ''10.1.0.0/24''"
    by (simp_all add: ex_adv1b_def ex_adv1_def ex_key1)
  have n: "ex_adv1 \<noteq> ex_adv1b"
    by (simp add: ex_adv1_def ex_adv1b_def)
  from C10_Set_last_duplicate_wins [OF v d, of ex_session] k n show ?thesis
    by auto
qed

end
